theory Spec2Isabelle
  imports Main "HOL-Library.AList"
begin

section \<open>JavaScript values\<close>

text \<open>
  An object of the program is a value \<open>Obj a ps\<close>: the address \<open>a\<close> it was allocated at and
  its own enumerable properties \<open>ps\<close>. The hook never changes an object after it has
  built it, so a value of this type stands for the reference to the object: the
  strict comparison \<^verbatim>\<open>===\<close> of two references is equality of the two values, and two
  objects built separately differ in their addresses even when their properties agree.

  The properties of a param config map are listed in the order in which \<^verbatim>\<open>Object.keys\<close>
  enumerates them (integer-like names first, then the others as inserted). The order of
  the properties of the objects that the hook builds is the order of their assignment;
  the hook reads their keys only inside \<^verbatim>\<open>shallowEqual\<close>, which does not depend on it.
\<close>

datatype 'a obj = Obj (addr: nat) (props: "(string \<times> 'a) list")

text \<open>\<^verbatim>\<open>Object.keys(o)\<close>.\<close>

definition Object_keys :: "'a obj \<Rightarrow> string list" where
  "Object_keys ob = map fst (props ob)"

text \<open>
  A raw (encoded) value of the query: a string, an array of strings (with \<^verbatim>\<open>null\<close>
  entries), \<^verbatim>\<open>null\<close> or \<^verbatim>\<open>undefined\<close>. The hook reads raw values through
  \<^verbatim>\<open>shallowEqual\<close> only, never through \<^verbatim>\<open>===\<close>, so an array is its list of elements.
\<close>

datatype raw = RUndefined | RNull | RString string | RArray "string option list"

text \<open>
  A decoded value is opaque to the hook, which compares two of them with \<^verbatim>\<open>Object.is\<close>
  at most: primitives by value, everything else (\<open>DRef\<close>) by address. \<open>DInherited k\<close> is
  the member \<open>k\<close> of \<^verbatim>\<open>Object.prototype\<close>, which a read of an object built with \<^verbatim>\<open>{}\<close>
  yields for a name that the object does not own.
\<close>

datatype dval =
  DUndefined | DNull | DBool bool | DNum int | DStr string | DRef nat | DInherited string

text \<open>
  What ends a call early: a TypeError of the program, something a codec or an updater
  function threw, or \<open>Unmodelled\<close>. \<open>Unmodelled\<close> is no throw of the program: it marks
  the one place where this model does not follow the program (a parameter named
  \<^verbatim>\<open>__proto__\<close>, see \<open>decode_loop\<close>).
\<close>

datatype error = TypeError | Thrown string | Unmodelled

text \<open>
  A parameter configuration \<^verbatim>\<open>{ encode, decode }\<close>. Either function may throw.
  \<open>decode\<close> takes, before the raw value, the next free address: a decoder that builds its
  result (an array, a date) returns a reference that no earlier call returned.

  The parameter configurations are objects too, and a param config map holds references
  to them (\<open>cref\<close>), which \<^verbatim>\<open>shallowEqual\<close> compares. The store of these objects is a
  function \<open>codecs\<close> from the references to the configurations.
\<close>

datatype codec = Codec (encode: "dval \<Rightarrow> error + raw") (decode: "nat \<Rightarrow> raw \<Rightarrow> error + dval")

type_synonym cref = nat

text \<open>
  Reading a property of a parsed query. The parsed query is taken to be an object without
  a prototype, as the parser of the query-string library builds it
  (\<^verbatim>\<open>Object.create(null)\<close>): a name that it does not own yields \<^verbatim>\<open>undefined\<close>.
\<close>

definition get_raw :: "(string \<times> raw) list \<Rightarrow> string \<Rightarrow> raw" where
  "get_raw ps k = (case map_of ps k of None \<Rightarrow> RUndefined | Some v \<Rightarrow> v)"

text \<open>
  The objects that the hook builds and caches are made with \<^verbatim>\<open>{}\<close> and inherit from
  \<^verbatim>\<open>Object.prototype\<close>: reading from one of them a name that it does not own yields the
  member of \<^verbatim>\<open>Object.prototype\<close> when the name is one of these, and \<^verbatim>\<open>undefined\<close>
  otherwise.
\<close>

definition Object_prototype_names :: "string list" where
  "Object_prototype_names =
     [''constructor'', ''__defineGetter__'', ''__defineSetter__'', ''hasOwnProperty'',
      ''__lookupGetter__'', ''__lookupSetter__'', ''isPrototypeOf'', ''propertyIsEnumerable'',
      ''toString'', ''valueOf'', ''__proto__'', ''toLocaleString'']"

definition inherited :: "(string \<times> 'a) list \<Rightarrow> string \<Rightarrow> bool" where
  "inherited ps k = (map_of ps k = None \<and> k \<in> set Object_prototype_names)"

text \<open>Reading a property of an object of decoded values (built with \<^verbatim>\<open>{}\<close>).\<close>

definition get_dval :: "(string \<times> dval) list \<Rightarrow> string \<Rightarrow> dval" where
  "get_dval ps k =
     (case map_of ps k of
        Some v \<Rightarrow> v
      | None \<Rightarrow> if k \<in> set Object_prototype_names then DInherited k else DUndefined)"

section \<open>The helpers of the hook\<close>

text \<open>
  Modelled from the spec: \<^verbatim>\<open>shallowEqual\<close> (\<^verbatim>\<open>./shallowEqual\<close>) is not among the
  sources. "Equality defined one level deep: same set of keys, and each value equal by
  reference or primitive equality (not recursively)."
\<close>

definition shallowEqual :: "'a obj \<Rightarrow> 'a obj \<Rightarrow> bool" where
  "shallowEqual a b =
     (set (Object_keys a) = set (Object_keys b) \<and>
      (\<forall>k \<in> set (Object_keys a). map_of (props a) k = map_of (props b) k))"

text \<open>
  Modelled from the spec: \<^verbatim>\<open>shallowEqual\<close> on two raw values. Absent and
  \<^verbatim>\<open>undefined\<close> entries are ordinary values, two strings are equal by value, and two
  arrays are compared element by element (same indices, each element equal).
\<close>

fun shallowEqual_raw :: "raw \<Rightarrow> raw \<Rightarrow> bool" where
  "shallowEqual_raw RUndefined RUndefined = True"
| "shallowEqual_raw RNull RNull = True"
| "shallowEqual_raw (RString a) (RString b) = (a = b)"
| "shallowEqual_raw (RArray xs) (RArray ys) =
     (length xs = length ys \<and> (\<forall>i < length xs. xs ! i = ys ! i))"
| "shallowEqual_raw _ _ = False"

text \<open>
  Modelled from the spec: \<^verbatim>\<open>usePreviousIfShallowEqual\<close> (\<^verbatim>\<open>./helpers\<close>) is not among
  the sources. It keeps the previous param config map in a cell of its own and returns it
  when the new map is shallow-equal to it ("may be replaced wholesale across evaluations
  (detected via shallow equality, not identity)").
\<close>

definition usePreviousIfShallowEqual :: "'a obj \<Rightarrow> 'a obj \<Rightarrow> 'a obj" where
  "usePreviousIfShallowEqual previous v = (if shallowEqual previous v then previous else v)"

text \<open>
  Modelled from the spec: \<^verbatim>\<open>useUpdateRefIfShallowNew\<close> (\<^verbatim>\<open>./helpers\<close>) is not among
  the sources. Its effect runs after the commit, "only updating a cache field when its new
  value is not already reference-equal to the cached one". The function gives the content
  of the cell after the effect.
\<close>

definition useUpdateRefIfShallowNew :: "'a \<Rightarrow> 'a \<Rightarrow> 'a" where
  "useUpdateRefIfShallowNew current newValue = (if current = newValue then current else newValue)"

section \<open>The state of one use of the hook\<close>

text \<open>
  The four cache cells of \<^verbatim>\<open>useQueryParams\<close> (lines 38 to 45), the cell of
  \<^verbatim>\<open>usePreviousIfShallowEqual\<close>, and what the hook reads and writes outside itself:
  the search string of the current location (\<^verbatim>\<open>getLocation()\<close>), the next free address,
  the calls of \<^verbatim>\<open>decode\<close> made so far (parameter name and argument) and the calls of
  \<^verbatim>\<open>setLocation\<close> made so far (encoded changes and update type).
\<close>

record hook_state =
  location :: string
  next_addr :: nat
  decode_calls :: "(string \<times> raw) list"
  setLocation_calls :: "((string \<times> raw) list \<times> string option) list"
  previousRef :: "cref obj"
  paramConfigMapRef :: "cref obj"
  parsedQueryRef :: "raw obj"
  encodedValuesCacheRef :: "raw obj option"
  decodedValuesCacheRef :: "dval obj"

record latest =
  encodedValues :: "raw obj"
  decodedValues :: "dval obj"

section \<open>getLatestDecodedValues\<close>

text \<open>
  Lines 95 to 98: \<^verbatim>\<open>!shallowEqual(encodedValuesCache[paramName], parsedQuery[paramName])\<close>.
  The cache is \<^verbatim>\<open>encodedValuesCacheRef.current || {}\<close>, an object built with \<^verbatim>\<open>{}\<close>: for
  a name that it does not own and \<^verbatim>\<open>Object.prototype\<close> has, the read yields a function,
  which is shallow-equal to no raw value. Under any other name the read yields the own
  value, or \<^verbatim>\<open>undefined\<close> when there is none, as \<open>get_raw\<close> does.
\<close>

definition hasNewEncodedValue ::
  "(string \<times> raw) list \<Rightarrow> (string \<times> raw) list \<Rightarrow> string \<Rightarrow> bool" where
  "hasNewEncodedValue encodedValuesCache parsedQuery paramName =
     (inherited encodedValuesCache paramName \<or>
      \<not> shallowEqual_raw (get_raw encodedValuesCache paramName) (get_raw parsedQuery paramName))"

text \<open>
  The loop of lines 92 to 113 over \<^verbatim>\<open>paramNames\<close>. \<open>ev\<close> and \<open>dv\<close> are the properties
  of \<^verbatim>\<open>encodedValues\<close> and \<^verbatim>\<open>decodedValues\<close> so far. A \<^verbatim>\<open>decode\<close> that throws ends the
  loop; \<^verbatim>\<open>paramConfig.decode\<close> on a missing \<^verbatim>\<open>paramConfig\<close> is a TypeError.

  Under the name \<^verbatim>\<open>__proto__\<close> the program does something else: lines 96 and 108 read the
  prototype of the cached objects, and the assignments of lines 111 and 112 add no
  property but replace the prototype of the objects being built when the value is an
  object or \<^verbatim>\<open>null\<close>. Objects with another prototype than \<^verbatim>\<open>Object.prototype\<close> are
  outside this model: at a parameter of that name the model stops with \<open>Unmodelled\<close>.
  Under every other name an assignment adds or replaces an own property.
\<close>

fun decode_loop ::
  "(cref \<Rightarrow> codec) \<Rightarrow> (string \<times> cref) list \<Rightarrow> (string \<times> raw) list \<Rightarrow> (string \<times> raw) list \<Rightarrow>
   (string \<times> dval) list \<Rightarrow> string list \<Rightarrow> (string \<times> raw) list \<Rightarrow> (string \<times> dval) list \<Rightarrow>
   hook_state \<Rightarrow> (error + (string \<times> raw) list \<times> (string \<times> dval) list) \<times> hook_state" where
  "decode_loop codecs paramConfigMap parsedQuery encodedValuesCache decodedValuesCache [] ev dv s =
     (Inr (ev, dv), s)"
| "decode_loop codecs paramConfigMap parsedQuery encodedValuesCache decodedValuesCache
     (paramName # paramNames) ev dv s =
     (if paramName = ''__proto__'' then (Inl Unmodelled, s)
      else if hasNewEncodedValue encodedValuesCache parsedQuery paramName then
           (let encodedValue = get_raw parsedQuery paramName in
            case map_of paramConfigMap paramName of
              None \<Rightarrow> (Inl TypeError, s)
            | Some paramConfig \<Rightarrow>
                (let s' = s\<lparr>next_addr := Suc (next_addr s),
                            decode_calls := decode_calls s @ [(paramName, encodedValue)]\<rparr>
                 in case decode (codecs paramConfig) (next_addr s) encodedValue of
                      Inl e \<Rightarrow> (Inl e, s')
                    | Inr decodedValue \<Rightarrow>
                        decode_loop codecs paramConfigMap parsedQuery encodedValuesCache decodedValuesCache
                          paramNames (AList.update paramName encodedValue ev)
                          (AList.update paramName decodedValue dv) s'))
         else
           decode_loop codecs paramConfigMap parsedQuery encodedValuesCache decodedValuesCache
             paramNames (AList.update paramName (get_raw encodedValuesCache paramName) ev)
             (AList.update paramName (get_dval decodedValuesCache paramName) dv) s)"

text \<open>
  Lines 51 to 127. \<open>parse\<close> is \<^verbatim>\<open>sharedMemoizedQueryParser\<close> after
  \<^verbatim>\<open>getSSRSafeSearchString\<close>. Modelled from the spec: neither is among the sources;
  the parser is "memoized such that calling it twice with the same string value returns a
  value that can be compared by reference for equality", that is, a function of the
  string's value to the reference of the parsed query.

  The two objects \<^verbatim>\<open>encodedValues\<close> and \<^verbatim>\<open>decodedValues\<close> are allocated before the
  loop (lines 86 and 91); the empty objects of lines 83 and 85, which nothing keeps, get
  no address.
\<close>

definition getLatestDecodedValues ::
  "(string \<Rightarrow> raw obj) \<Rightarrow> (cref \<Rightarrow> codec) \<Rightarrow> cref obj \<Rightarrow> hook_state \<Rightarrow>
   (error + latest) \<times> hook_state" where
  "getLatestDecodedValues parse codecs paramConfigMap s =
     (let hasNewParamConfigMap = \<not> shallowEqual (paramConfigMapRef s) paramConfigMap;
          parsedQuery = parse (location s);
          hasNewParsedQuery = (parsedQueryRef s \<noteq> parsedQuery)
      in if \<not> hasNewParsedQuery \<and> \<not> hasNewParamConfigMap \<and> encodedValuesCacheRef s \<noteq> None
         then (Inr \<lparr>encodedValues = the (encodedValuesCacheRef s),
                    decodedValues = decodedValuesCacheRef s\<rparr>, s)
         else
             (let encodedValuesCache =
                    (case encodedValuesCacheRef s of None \<Rightarrow> [] | Some c \<Rightarrow> props c);
                  decodedValuesCache = props (decodedValuesCacheRef s);
                  a = next_addr s
              in case decode_loop codecs (props paramConfigMap) (props parsedQuery) encodedValuesCache
                        decodedValuesCache (Object_keys paramConfigMap) [] []
                        (s\<lparr>next_addr := a + 2\<rparr>) of
                   (Inl e, s') \<Rightarrow> (Inl e, s')
                 | (Inr (ev, dv), s') \<Rightarrow>
                     (let decodedValues = Obj (a + 1) dv;
                          hasNewDecodedValues =
                            \<not> shallowEqual (decodedValuesCacheRef s) decodedValues
                      in (Inr \<lparr>encodedValues = Obj a ev,
                                decodedValues = (if hasNewDecodedValues then decodedValues
                                                 else decodedValuesCacheRef s)\<rparr>, s'))))"

section \<open>useQueryParams\<close>

text \<open>
  The render phase of one evaluation, lines 30 to 130: the parsed query of line 33, the
  memoized \<^verbatim>\<open>paramConfigMap\<close> of line 49 and the result of line 130. The effects of
  lines 133 to 136 are registered here and run after the commit; a render that throws
  registers none.
\<close>

definition useQueryParams_render ::
  "(string \<Rightarrow> raw obj) \<Rightarrow> (cref \<Rightarrow> codec) \<Rightarrow> cref obj \<Rightarrow> hook_state \<Rightarrow>
   (error + raw obj \<times> cref obj \<times> latest) \<times> hook_state" where
  "useQueryParams_render parse codecs paramConfigMap0 s =
     (let parsedQuery = parse (location s);
          paramConfigMap = usePreviousIfShallowEqual (previousRef s) paramConfigMap0
      in case getLatestDecodedValues parse codecs paramConfigMap s of
           (Inl e, s') \<Rightarrow> (Inl e, s')
         | (Inr r, s') \<Rightarrow> (Inr (parsedQuery, paramConfigMap, r), s'))"

text \<open>
  The effects after the commit: the four \<^verbatim>\<open>useUpdateRefIfShallowNew\<close> of lines 133 to
  136 and the effect of \<^verbatim>\<open>usePreviousIfShallowEqual\<close>, which stores the map it returned.
\<close>

definition run_effects :: "raw obj \<times> cref obj \<times> latest \<Rightarrow> hook_state \<Rightarrow> hook_state" where
  "run_effects out s =
     (case out of (parsedQuery, paramConfigMap, r) \<Rightarrow>
        s\<lparr>previousRef := useUpdateRefIfShallowNew (previousRef s) paramConfigMap,
          parsedQueryRef := useUpdateRefIfShallowNew (parsedQueryRef s) parsedQuery,
          paramConfigMapRef := useUpdateRefIfShallowNew (paramConfigMapRef s) paramConfigMap,
          encodedValuesCacheRef :=
            useUpdateRefIfShallowNew (encodedValuesCacheRef s) (Some (encodedValues r)),
          decodedValuesCacheRef :=
            useUpdateRefIfShallowNew (decodedValuesCacheRef s) (decodedValues r)\<rparr>)"

text \<open>
  One committed evaluation: the render, then its effects. The result is the pair the hook
  returns: the decoded values and the setter, which is \<^verbatim>\<open>setQuery\<close> closed over the
  memoized \<^verbatim>\<open>paramConfigMap\<close> (the second component).
\<close>

definition useQueryParams ::
  "(string \<Rightarrow> raw obj) \<Rightarrow> (cref \<Rightarrow> codec) \<Rightarrow> cref obj \<Rightarrow> hook_state \<Rightarrow>
   (error + dval obj \<times> cref obj) \<times> hook_state" where
  "useQueryParams parse codecs paramConfigMap0 s =
     (case useQueryParams_render parse codecs paramConfigMap0 s of
        (Inl e, s') \<Rightarrow> (Inl e, s')
      | (Inr out, s') \<Rightarrow> (Inr (decodedValues (snd (snd out)), fst (snd out)), run_effects out s'))"

text \<open>
  The cells as \<^verbatim>\<open>React.useRef\<close> creates them at the first render (lines 38 to 45), at
  location \<open>loc\<close> and with \<open>a\<close> the next free address: the encoded values are
  \<^verbatim>\<open>undefined\<close> and the decoded values a new empty object.
\<close>

definition useRef_initial :: "(string \<Rightarrow> raw obj) \<Rightarrow> cref obj \<Rightarrow> string \<Rightarrow> nat \<Rightarrow> hook_state" where
  "useRef_initial parse paramConfigMap loc a =
     \<lparr>location = loc, next_addr = Suc a, decode_calls = [], setLocation_calls = [],
      previousRef = paramConfigMap, paramConfigMapRef = paramConfigMap,
      parsedQueryRef = parse loc, encodedValuesCacheRef = None,
      decodedValuesCacheRef = Obj a []\<rparr>"

section \<open>setQuery\<close>

text \<open>
  Modelled from the spec: \<^verbatim>\<open>encodeQueryParams\<close> is imported from
  \<^verbatim>\<open>serialize-query-params\<close> and is not among the sources. It "encodes every entry
  through the corresponding parameter's codec \<^verbatim>\<open>encode\<close> function, using the current
  param config map". The type of the changes admits no name outside the config map and
  the spec gives no behaviour for one: the model fails there.
\<close>

fun encodeQueryParams ::
  "(cref \<Rightarrow> codec) \<Rightarrow> cref obj \<Rightarrow> (string \<times> dval) list \<Rightarrow> error + (string \<times> raw) list" where
  "encodeQueryParams codecs paramConfigMap [] = Inr []"
| "encodeQueryParams codecs paramConfigMap ((paramName, decodedValue) # query) =
     (case map_of (props paramConfigMap) paramName of
        None \<Rightarrow> Inl TypeError
      | Some paramConfig \<Rightarrow>
          (case encode (codecs paramConfig) decodedValue of
             Inl e \<Rightarrow> Inl e
           | Inr encodedValue \<Rightarrow>
               (case encodeQueryParams codecs paramConfigMap query of
                  Inl e \<Rightarrow> Inl e
                | Inr encodedQuery \<Rightarrow> Inr ((paramName, encodedValue) # encodedQuery))))"

text \<open>
  The argument \<^verbatim>\<open>changes\<close> of the setter: a partial mapping of decoded values, or a
  function of the latest decoded values (which may throw).
\<close>

datatype changes =
  Values "(string \<times> dval) list"
| Updater "dval obj \<Rightarrow> error + (string \<times> raw) list"

text \<open>
  Lines 139 to 160. \<open>paramConfigMap\<close> is the memoized map the callback was created with.
  A call of \<^verbatim>\<open>setLocation\<close> is recorded with its two arguments.
\<close>

definition setQuery ::
  "(string \<Rightarrow> raw obj) \<Rightarrow> (cref \<Rightarrow> codec) \<Rightarrow> cref obj \<Rightarrow> changes \<Rightarrow> string option \<Rightarrow>
   hook_state \<Rightarrow> (error + unit) \<times> hook_state" where
  "setQuery parse codecs paramConfigMap changes updateType s =
     (case changes of
        Updater f \<Rightarrow>
          (case getLatestDecodedValues parse codecs paramConfigMap s of
             (Inl e, s1) \<Rightarrow> (Inl e, s1)
           | (Inr r, s1) \<Rightarrow>
               (let latestValues = decodedValues r;
                    s2 = s1\<lparr>decodedValuesCacheRef := latestValues\<rparr>
                in case f latestValues of
                     Inl e \<Rightarrow> (Inl e, s2)
                   | Inr encodedChanges \<Rightarrow>
                       (Inr (), s2\<lparr>setLocation_calls :=
                                     setLocation_calls s2 @ [(encodedChanges, updateType)]\<rparr>)))
      | Values query \<Rightarrow>
          (case encodeQueryParams codecs paramConfigMap query of
             Inl e \<Rightarrow> (Inl e, s)
           | Inr encodedChanges \<Rightarrow>
               (Inr (), s\<lparr>setLocation_calls :=
                            setLocation_calls s @ [(encodedChanges, updateType)]\<rparr>)))"

section \<open>Cache invariants\<close>

text \<open>
  The cached encoded values are current: under every name of the cached param config map
  they own the raw value that the cached parsed query has for it.
\<close>

definition encoded_cache_current :: "hook_state \<Rightarrow> bool" where
  "encoded_cache_current s =
     (case encodedValuesCacheRef s of
        None \<Rightarrow> True
      | Some c \<Rightarrow>
          (\<forall>k \<in> set (Object_keys (paramConfigMapRef s)).
             map_of (props c) k = Some (get_raw (props (parsedQueryRef s)) k)))"

text \<open>The cached encoded and decoded values have the keys of the cached param config map.\<close>

definition cache_keys_current :: "hook_state \<Rightarrow> bool" where
  "cache_keys_current s =
     (case encodedValuesCacheRef s of
        None \<Rightarrow> True
      | Some c \<Rightarrow>
          set (Object_keys c) = set (Object_keys (paramConfigMapRef s)) \<and>
          set (Object_keys (decodedValuesCacheRef s)) = set (Object_keys (paramConfigMapRef s)))"

text \<open>The properties of \<^verbatim>\<open>encodedValuesCacheRef.current || {}\<close> (line 83).\<close>

definition cached_encoded :: "hook_state \<Rightarrow> (string \<times> raw) list" where
  "cached_encoded s = (case encodedValuesCacheRef s of None \<Rightarrow> [] | Some c \<Rightarrow> props c)"

section \<open>Example codecs, queries and states\<close>

text \<open>
  A codec of the examples, for the natural numbers in decimal. It is not
  \<^verbatim>\<open>{decode: Number, encode: String}\<close>: \<open>decimal_decode\<close> throws on everything but a
  non-empty string of decimal digits (where \<^verbatim>\<open>Number\<close> returns NaN or another number),
  and \<open>decimal_encode\<close> throws on everything but an integer. The two codecs agree on the
  values of the scenarios of the spec: the strings \<^verbatim>\<open>"3"\<close> and \<^verbatim>\<open>"5"\<close> decode to 3 and
  5, and the numbers 4 and 6 encode to \<^verbatim>\<open>"4"\<close> and \<^verbatim>\<open>"6"\<close>.
\<close>

definition digits10 :: string where
  "digits10 = ''0123456789''"

fun decimal :: "nat \<Rightarrow> string" where
  "decimal n = (if n < 10 then [digits10 ! n] else decimal (n div 10) @ [digits10 ! (n mod 10)])"

declare decimal.simps [simp del]

definition decimal_encode :: "dval \<Rightarrow> error + raw" where
  "decimal_encode v =
     (case v of
        DNum i \<Rightarrow> Inr (RString (if i < 0 then CHR ''-'' # decimal (nat (- i)) else decimal (nat i)))
      | _ \<Rightarrow> Inl (Thrown ''decimal_encode''))"

definition digit_val :: "char \<Rightarrow> nat option" where
  "digit_val c = (if c \<in> set digits10 then Some (of_char c - 48) else None)"

fun number_of :: "nat \<Rightarrow> string \<Rightarrow> nat option" where
  "number_of acc [] = Some acc"
| "number_of acc (c # cs) =
     (case digit_val c of None \<Rightarrow> None | Some d \<Rightarrow> number_of (10 * acc + d) cs)"

definition decimal_decode :: "nat \<Rightarrow> raw \<Rightarrow> error + dval" where
  "decimal_decode a r =
     (case r of
        RString (c # cs) \<Rightarrow>
          (case number_of 0 (c # cs) of
             Some n \<Rightarrow> Inr (DNum (int n))
           | None \<Rightarrow> Inl (Thrown ''decimal_decode''))
      | _ \<Rightarrow> Inl (Thrown ''decimal_decode''))"

text \<open>
  The same decoder with a default: a missing raw value (\<^verbatim>\<open>undefined\<close>) decodes to 0.
\<close>

definition default_decode :: "nat \<Rightarrow> raw \<Rightarrow> error + dval" where
  "default_decode a r = (case r of RUndefined \<Rightarrow> Inr (DNum 0) | _ \<Rightarrow> decimal_decode a r)"

text \<open>
  The store of parameter configurations of the examples: at reference 3 a configuration
  whose \<open>decode\<close> builds a new object at every call, at reference 4 the decimal codec
  with the default, everywhere else the decimal codec.
\<close>

definition example_codecs :: "cref \<Rightarrow> codec" where
  "example_codecs c =
     (if c = 3 then Codec (\<lambda>v. Inr (RString ''object'')) (\<lambda>a r. Inr (DRef a))
      else if c = 4 then Codec decimal_encode default_decode
      else Codec decimal_encode decimal_decode)"

definition example_parse :: "string \<Rightarrow> raw obj" where
  "example_parse str =
     (if str = ''?page=3'' then Obj 10 [(''page'', RString ''3'')]
      else if str = ''?page=5'' then Obj 11 [(''page'', RString ''5'')]
      else if str = ''?page=3&sort=7'' then Obj 12 [(''page'', RString ''3''), (''sort'', RString ''7'')]
      else if str = ''?page=3&sort=9'' then Obj 13 [(''page'', RString ''3''), (''sort'', RString ''9'')]
      else Obj 14 [])"

text \<open>
  The config of scenario A, \<^verbatim>\<open>{page: {decode: Number, encode: String}}\<close>, with the
  decimal codec in the place of \<^verbatim>\<open>Number\<close> and \<^verbatim>\<open>String\<close>.
\<close>

definition page_config :: "cref obj" where
  "page_config = Obj 1 [(''page'', 2)]"

text \<open>The state after the first evaluation of scenario A, at \<^verbatim>\<open>?page=3\<close>.\<close>

definition page_state :: hook_state where
  "page_state =
     \<lparr>location = ''?page=3'', next_addr = 104, decode_calls = [(''page'', RString ''3'')],
      setLocation_calls = [], previousRef = page_config, paramConfigMapRef = page_config,
      parsedQueryRef = Obj 10 [(''page'', RString ''3'')],
      encodedValuesCacheRef = Some (Obj 101 [(''page'', RString ''3'')]),
      decodedValuesCacheRef = Obj 102 [(''page'', DNum 3)]\<rparr>"

text \<open>
  The function \<^verbatim>\<open>(latest) => ({page: String(latest.page + 1)})\<close> of scenario D, on the
  numbers; where \<^verbatim>\<open>latest.page\<close> is no number this one throws.
\<close>

definition next_page :: "dval obj \<Rightarrow> error + (string \<times> raw) list" where
  "next_page latestValues =
     (case get_dval (props latestValues) ''page'' of
        DNum n \<Rightarrow> (case decimal_encode (DNum (n + 1)) of Inl e \<Rightarrow> Inl e | Inr r \<Rightarrow> Inr [(''page'', r)])
      | _ \<Rightarrow> Inl TypeError)"



text \<open>
  A second config, of the parameter \<^verbatim>\<open>sort\<close> alone, an updater that returns no changes
  (\<^verbatim>\<open>(latest) => ({})\<close>), and the states of a use of the hook that is evaluated with
  \<^verbatim>\<open>{page}\<close> at \<^verbatim>\<open>?page=3&sort=7\<close> (\<open>stale_state1\<close>), then with \<^verbatim>\<open>{sort}\<close>
  (\<open>stale_state2\<close>), and whose first setter is then called with that updater
  (\<open>stale_state3\<close>).
\<close>

definition sort_config :: "cref obj" where
  "sort_config = Obj 8 [(''sort'', 2)]"

definition no_changes :: "dval obj \<Rightarrow> error + (string \<times> raw) list" where
  "no_changes latestValues = Inr []"

definition stale_state1 :: hook_state where
  "stale_state1 =
     \<lparr>location = ''?page=3&sort=7'', next_addr = 104, decode_calls = [(''page'', RString ''3'')],
      setLocation_calls = [], previousRef = page_config, paramConfigMapRef = page_config,
      parsedQueryRef = Obj 12 [(''page'', RString ''3''), (''sort'', RString ''7'')],
      encodedValuesCacheRef = Some (Obj 101 [(''page'', RString ''3'')]),
      decodedValuesCacheRef = Obj 102 [(''page'', DNum 3)]\<rparr>"

definition stale_state2 :: hook_state where
  "stale_state2 =
     \<lparr>location = ''?page=3&sort=7'', next_addr = 107,
      decode_calls = [(''page'', RString ''3''), (''sort'', RString ''7'')],
      setLocation_calls = [], previousRef = sort_config, paramConfigMapRef = sort_config,
      parsedQueryRef = Obj 12 [(''page'', RString ''3''), (''sort'', RString ''7'')],
      encodedValuesCacheRef = Some (Obj 104 [(''sort'', RString ''7'')]),
      decodedValuesCacheRef = Obj 105 [(''sort'', DNum 7)]\<rparr>"

definition stale_state3 :: hook_state where
  "stale_state3 =
     \<lparr>location = ''?page=3&sort=7'', next_addr = 110,
      decode_calls = [(''page'', RString ''3''), (''sort'', RString ''7''), (''page'', RString ''3'')],
      setLocation_calls = [([], None)], previousRef = sort_config, paramConfigMapRef = sort_config,
      parsedQueryRef = Obj 12 [(''page'', RString ''3''), (''sort'', RString ''7'')],
      encodedValuesCacheRef = Some (Obj 104 [(''sort'', RString ''7'')]),
      decodedValuesCacheRef = Obj 108 [(''page'', DNum 3)]\<rparr>"

text \<open>
  The states of a use of the hook that is evaluated with \<^verbatim>\<open>{page}\<close> at \<^verbatim>\<open>?page=5\<close>
  (\<open>round_trip_state1\<close>), whose setter is then called with \<open>next_page\<close> when the location
  is \<^verbatim>\<open>?page=3\<close> (\<open>round_trip_state2\<close>) and called again when the location is
  \<^verbatim>\<open>?page=5\<close> again (\<open>round_trip_state3\<close>), with no evaluation in between.
\<close>

definition round_trip_state1 :: hook_state where
  "round_trip_state1 =
     \<lparr>location = ''?page=5'', next_addr = 104, decode_calls = [(''page'', RString ''5'')],
      setLocation_calls = [], previousRef = page_config, paramConfigMapRef = page_config,
      parsedQueryRef = Obj 11 [(''page'', RString ''5'')],
      encodedValuesCacheRef = Some (Obj 101 [(''page'', RString ''5'')]),
      decodedValuesCacheRef = Obj 102 [(''page'', DNum 5)]\<rparr>"

definition round_trip_state2 :: hook_state where
  "round_trip_state2 =
     \<lparr>location = ''?page=3'', next_addr = 107,
      decode_calls = [(''page'', RString ''5''), (''page'', RString ''3'')],
      setLocation_calls = [([(''page'', RString ''4'')], None)],
      previousRef = page_config, paramConfigMapRef = page_config,
      parsedQueryRef = Obj 11 [(''page'', RString ''5'')],
      encodedValuesCacheRef = Some (Obj 101 [(''page'', RString ''5'')]),
      decodedValuesCacheRef = Obj 105 [(''page'', DNum 3)]\<rparr>"

definition round_trip_state3 :: hook_state where
  "round_trip_state3 =
     \<lparr>location = ''?page=5'', next_addr = 107,
      decode_calls = [(''page'', RString ''5''), (''page'', RString ''3'')],
      setLocation_calls = [([(''page'', RString ''4'')], None), ([(''page'', RString ''4'')], None)],
      previousRef = page_config, paramConfigMapRef = page_config,
      parsedQueryRef = Obj 11 [(''page'', RString ''5'')],
      encodedValuesCacheRef = Some (Obj 101 [(''page'', RString ''5'')]),
      decodedValuesCacheRef = Obj 105 [(''page'', DNum 3)]\<rparr>"

text \<open>
  The config \<^verbatim>\<open>{page}\<close> with the decimal codec that has the default 0, the state after
  its first evaluation at the empty query (\<open>default_state_empty\<close>), and the states after
  its first evaluation at \<^verbatim>\<open>?page=3\<close> (\<open>default_state_page\<close>) and after a second
  evaluation, at the empty query (\<open>default_state_removed\<close>).
\<close>

definition default_page_config :: "cref obj" where
  "default_page_config = Obj 30 [(''page'', 4)]"

definition default_state_empty :: hook_state where
  "default_state_empty =
     \<lparr>location = [], next_addr = 103, decode_calls = [], setLocation_calls = [],
      previousRef = default_page_config, paramConfigMapRef = default_page_config,
      parsedQueryRef = Obj 14 [],
      encodedValuesCacheRef = Some (Obj 101 [(''page'', RUndefined)]),
      decodedValuesCacheRef = Obj 102 [(''page'', DUndefined)]\<rparr>"

definition default_state_page :: hook_state where
  "default_state_page =
     \<lparr>location = ''?page=3'', next_addr = 104, decode_calls = [(''page'', RString ''3'')],
      setLocation_calls = [], previousRef = default_page_config,
      paramConfigMapRef = default_page_config,
      parsedQueryRef = Obj 10 [(''page'', RString ''3'')],
      encodedValuesCacheRef = Some (Obj 101 [(''page'', RString ''3'')]),
      decodedValuesCacheRef = Obj 102 [(''page'', DNum 3)]\<rparr>"

definition default_state_removed :: hook_state where
  "default_state_removed =
     \<lparr>location = [], next_addr = 107,
      decode_calls = [(''page'', RString ''3''), (''page'', RUndefined)],
      setLocation_calls = [], previousRef = default_page_config,
      paramConfigMapRef = default_page_config,
      parsedQueryRef = Obj 14 [],
      encodedValuesCacheRef = Some (Obj 104 [(''page'', RUndefined)]),
      decodedValuesCacheRef = Obj 105 [(''page'', DNum 0)]\<rparr>"

section \<open>Shallow equality\<close>

lemma shallowEqual_raw_iff: "shallowEqual_raw a b \<longleftrightarrow> a = b"
  by (cases a; cases b) (auto simp: list_eq_iff_nth_eq)



lemma shallowEqual_keys: "shallowEqual a b \<Longrightarrow> set (Object_keys a) = set (Object_keys b)"
  by (simp add: shallowEqual_def)

lemma useUpdateRefIfShallowNew_new: "useUpdateRefIfShallowNew c n = n"
  by (simp add: useUpdateRefIfShallowNew_def)


section \<open>What an evaluation changes in the state\<close>

lemma state_triv: "\<exists>n cs. s = s\<lparr>next_addr := n, decode_calls := cs\<rparr>"
  by (rule exI[of _ "next_addr s"], rule exI[of _ "decode_calls s"]) simp

lemma decode_loop_proto:
  "decode_loop codecs cfg pq ec dc (''__proto__'' # names) ev dv s = (Inl Unmodelled, s)"
  by simp

lemma decode_loop_reuse:
  "p \<noteq> ''__proto__'' \<Longrightarrow> \<not> hasNewEncodedValue ec pq p \<Longrightarrow>
   decode_loop codecs cfg pq ec dc (p # names) ev dv s =
   decode_loop codecs cfg pq ec dc names (AList.update p (get_raw ec p) ev)
     (AList.update p (get_dval dc p) dv) s"
  by simp

lemma decode_loop_decode:
  "p \<noteq> ''__proto__'' \<Longrightarrow> hasNewEncodedValue ec pq p \<Longrightarrow>
   decode_loop codecs cfg pq ec dc (p # names) ev dv s =
   (case map_of cfg p of
      None \<Rightarrow> (Inl TypeError, s)
    | Some c \<Rightarrow>
        (case decode (codecs c) (next_addr s) (get_raw pq p) of
           Inl e \<Rightarrow> (Inl e, s\<lparr>next_addr := Suc (next_addr s),
                               decode_calls := decode_calls s @ [(p, get_raw pq p)]\<rparr>)
         | Inr d \<Rightarrow>
             decode_loop codecs cfg pq ec dc names (AList.update p (get_raw pq p) ev)
               (AList.update p d dv)
               (s\<lparr>next_addr := Suc (next_addr s),
                  decode_calls := decode_calls s @ [(p, get_raw pq p)]\<rparr>)))"
  by (cases "map_of cfg p") (simp_all add: Let_def)

declare decode_loop.simps(2) [simp del]

lemma not_hasNewEncodedValue:
  "\<not> hasNewEncodedValue ec pq p \<Longrightarrow> get_raw ec p = get_raw pq p \<and> \<not> inherited ec p"
  by (simp add: hasNewEncodedValue_def shallowEqual_raw_iff)

lemma decode_loop_state:
  "\<exists>n cs. snd (decode_loop codecs cfg pq ec dc names ev dv s) = s\<lparr>next_addr := n, decode_calls := cs\<rparr>"
proof (induction names arbitrary: ev dv s)
  case Nil
  show ?case by (simp add: state_triv)
next
  case (Cons p names)
  show ?case
  proof (cases "p = ''__proto__''")
    case True
    then show ?thesis by (simp add: decode_loop_proto state_triv)
  next
    case np: False
    show ?thesis
    proof (cases "hasNewEncodedValue ec pq p")
      case False
      with np show ?thesis using Cons.IH by (simp add: decode_loop_reuse)
    next
      case True
      note step = decode_loop_decode[OF np True]
      show ?thesis
      proof (cases "map_of cfg p")
        case None
        then show ?thesis by (simp add: step state_triv)
      next
        case (Some c)
        let ?s' = "s\<lparr>next_addr := Suc (next_addr s), decode_calls := decode_calls s @ [(p, get_raw pq p)]\<rparr>"
        show ?thesis
        proof (cases "decode (codecs c) (next_addr s) (get_raw pq p)")
          case (Inl e)
          with Some show ?thesis by (simp add: step) blast
        next
          case (Inr d)
          from Cons.IH[of "AList.update p (get_raw pq p) ev" "AList.update p d dv" ?s']
          obtain n cs where "snd (decode_loop codecs cfg pq ec dc names (AList.update p (get_raw pq p) ev) (AList.update p d dv) ?s') = ?s'\<lparr>next_addr := n, decode_calls := cs\<rparr>"
            by blast
          with Some Inr show ?thesis by (simp add: step) blast
        qed
      qed
    qed
  qed
qed

lemma getLatestDecodedValues_state:
  "\<exists>n cs. snd (getLatestDecodedValues parse codecs cfg s) = s\<lparr>next_addr := n, decode_calls := cs\<rparr>"
proof -
  let ?ec = "case encodedValuesCacheRef s of None \<Rightarrow> [] | Some c \<Rightarrow> props c"
  let ?loop = "decode_loop codecs (props cfg) (props (parse (location s))) ?ec
      (props (decodedValuesCacheRef s)) (Object_keys cfg) [] [] (s\<lparr>next_addr := next_addr s + 2\<rparr>)"
  obtain n cs where l: "snd ?loop = s\<lparr>next_addr := next_addr s + 2\<rparr>\<lparr>next_addr := n, decode_calls := cs\<rparr>"
    using decode_loop_state by blast
  then have l': "snd ?loop = s\<lparr>next_addr := n, decode_calls := cs\<rparr>" by simp
  show ?thesis
  proof (cases "parsedQueryRef s = parse (location s) \<and> shallowEqual (paramConfigMapRef s) cfg \<and>
                encodedValuesCacheRef s \<noteq> None")
    case True
    then show ?thesis by (simp add: getLatestDecodedValues_def Let_def state_triv)
  next
    case False
    then have "snd (getLatestDecodedValues parse codecs cfg s) = snd ?loop"
      by (auto simp: getLatestDecodedValues_def Let_def split: prod.splits sum.splits)
    with l' show ?thesis by metis
  qed
qed


lemma decode_loop_Cons_Inr:
  assumes "decode_loop codecs cfg pq ec dc (p # names) ev dv s = (Inr R, s')"
  shows "p \<noteq> ''__proto__'' \<and>
         (\<exists>d s1. decode_loop codecs cfg pq ec dc names (AList.update p (get_raw pq p) ev)
                    (AList.update p d dv) s1 = (Inr R, s') \<and>
           (\<not> hasNewEncodedValue ec pq p \<longrightarrow> d = get_dval dc p \<and> s1 = s) \<and>
           (hasNewEncodedValue ec pq p \<longrightarrow>
              (\<exists>c. map_of cfg p = Some c \<and> decode (codecs c) (next_addr s) (get_raw pq p) = Inr d) \<and>
              s1 = s\<lparr>next_addr := Suc (next_addr s),
                     decode_calls := decode_calls s @ [(p, get_raw pq p)]\<rparr>))"
proof -
  from assms have np: "p \<noteq> ''__proto__''"
    by (cases "p = ''__proto__''") (simp_all add: decode_loop_proto)
  show ?thesis
  proof (cases "hasNewEncodedValue ec pq p")
    case False
    with assms np show ?thesis
      using not_hasNewEncodedValue[OF False] by (simp add: decode_loop_reuse)
  next
    case True
    note step = decode_loop_decode[OF np True]
    from assms obtain c where c: "map_of cfg p = Some c"
      by (cases "map_of cfg p") (simp_all add: step)
    with assms obtain d where d: "decode (codecs c) (next_addr s) (get_raw pq p) = Inr d"
      by (cases "decode (codecs c) (next_addr s) (get_raw pq p)") (simp_all add: step)
    with assms c np True show ?thesis by (simp add: step)
  qed
qed

lemma decode_loop_keys:
  "decode_loop codecs cfg pq ec dc names ev dv s = (Inr (ev', dv'), s') \<Longrightarrow>
   fst ` set ev' = fst ` set ev \<union> set names \<and> fst ` set dv' = fst ` set dv \<union> set names"
proof (induction names arbitrary: ev dv s)
  case Nil
  then show ?case by simp
next
  case (Cons p names)
  from decode_loop_Cons_Inr[OF Cons.prems] obtain d s1 where
    "decode_loop codecs cfg pq ec dc names (AList.update p (get_raw pq p) ev) (AList.update p d dv) s1 = (Inr (ev', dv'), s')"
    by blast
  from Cons.IH[OF this] show ?case by (simp add: dom_update)
qed

lemma decode_loop_no_proto:
  "decode_loop codecs cfg pq ec dc names ev dv s = (Inr R, s') \<Longrightarrow> ''__proto__'' \<notin> set names"
proof (induction names arbitrary: ev dv s)
  case Nil
  then show ?case by simp
next
  case (Cons p names)
  from decode_loop_Cons_Inr[OF Cons.prems] obtain d s1 where
    "p \<noteq> ''__proto__''"
    "decode_loop codecs cfg pq ec dc names (AList.update p (get_raw pq p) ev) (AList.update p d dv) s1 = (Inr R, s')"
    by blast
  with Cons.IH[OF this(2)] show ?case by simp
qed

lemma decode_loop_other:
  "decode_loop codecs cfg pq ec dc names ev dv s = (Inr (ev', dv'), s') \<Longrightarrow> k \<notin> set names \<Longrightarrow>
   map_of ev' k = map_of ev k \<and> map_of dv' k = map_of dv k"
proof (induction names arbitrary: ev dv s)
  case Nil
  then show ?case by simp
next
  case (Cons p names)
  from decode_loop_Cons_Inr[OF Cons.prems(1)] obtain d s1 where
    "decode_loop codecs cfg pq ec dc names (AList.update p (get_raw pq p) ev) (AList.update p d dv) s1 = (Inr (ev', dv'), s')"
    by blast
  from Cons.IH[OF this] Cons.prems(2) show ?case by (simp add: update_conv')
qed

lemma decode_loop_encoded:
  "decode_loop codecs cfg pq ec dc names ev dv s = (Inr (ev', dv'), s') \<Longrightarrow> k \<in> set names \<Longrightarrow>
   map_of ev' k = Some (get_raw pq k)"
proof (induction names arbitrary: ev dv s)
  case Nil
  then show ?case by simp
next
  case (Cons p names)
  from decode_loop_Cons_Inr[OF Cons.prems(1)] obtain d s1 where
    step: "decode_loop codecs cfg pq ec dc names (AList.update p (get_raw pq p) ev) (AList.update p d dv) s1 = (Inr (ev', dv'), s')"
    by blast
  show ?case
  proof (cases "k \<in> set names")
    case True
    then show ?thesis using Cons.IH[OF step] by simp
  next
    case False
    with Cons.prems(2) have "k = p" by simp
    with decode_loop_other[OF step False] show ?thesis by (simp add: update_conv')
  qed
qed


lemma decode_loop_decoded:
  "decode_loop codecs cfg pq ec dc names ev dv s = (Inr (ev', dv'), s') \<Longrightarrow> k \<in> set names \<Longrightarrow>
   hasNewEncodedValue ec pq k \<Longrightarrow>
   \<exists>c n d. map_of cfg k = Some c \<and> decode (codecs c) n (get_raw pq k) = Inr d \<and> map_of dv' k = Some d"
proof (induction names arbitrary: ev dv s)
  case Nil
  then show ?case by simp
next
  case (Cons p names)
  from decode_loop_Cons_Inr[OF Cons.prems(1)] obtain d s1 where
    step: "decode_loop codecs cfg pq ec dc names (AList.update p (get_raw pq p) ev) (AList.update p d dv) s1 = (Inr (ev', dv'), s')"
    and d: "hasNewEncodedValue ec pq p \<longrightarrow>
              (\<exists>c. map_of cfg p = Some c \<and> decode (codecs c) (next_addr s) (get_raw pq p) = Inr d)"
    by blast
  show ?case
  proof (cases "k \<in> set names")
    case True
    then show ?thesis using Cons.IH[OF step] Cons.prems(3) by simp
  next
    case False
    with Cons.prems(2) have kp: "k = p" by simp
    with d Cons.prems(3) obtain c where "map_of cfg k = Some c" "decode (codecs c) (next_addr s) (get_raw pq k) = Inr d"
      by blast
    moreover from decode_loop_other[OF step False] kp have "map_of dv' k = Some d" by (simp add: update_conv')
    ultimately show ?thesis by blast
  qed
qed

lemma decode_loop_calls:
  "decode_loop codecs cfg pq ec dc names ev dv s = (Inr (ev', dv'), s') \<Longrightarrow>
   decode_calls s' = decode_calls s @
     map (\<lambda>k. (k, get_raw pq k)) (filter (hasNewEncodedValue ec pq) names)"
proof (induction names arbitrary: ev dv s)
  case Nil
  then show ?case by simp
next
  case (Cons p names)
  from decode_loop_Cons_Inr[OF Cons.prems(1)] obtain d s1 where
    step: "decode_loop codecs cfg pq ec dc names (AList.update p (get_raw pq p) ev) (AList.update p d dv) s1 = (Inr (ev', dv'), s')"
    and s1: "\<not> hasNewEncodedValue ec pq p \<longrightarrow> s1 = s"
      "hasNewEncodedValue ec pq p \<longrightarrow> s1 = s\<lparr>next_addr := Suc (next_addr s),
                     decode_calls := decode_calls s @ [(p, get_raw pq p)]\<rparr>"
    by blast
  from Cons.IH[OF step] s1 show ?case by (cases "hasNewEncodedValue ec pq p") simp_all
qed

lemma getLatestDecodedValues_cached:
  assumes "parsedQueryRef s = parse (location s)" and "shallowEqual (paramConfigMapRef s) cfg"
    and "encodedValuesCacheRef s = Some c"
  shows "getLatestDecodedValues parse codecs cfg s =
           (Inr \<lparr>encodedValues = c, decodedValues = decodedValuesCacheRef s\<rparr>, s)"
  using assms by (simp add: getLatestDecodedValues_def)

lemma getLatestDecodedValues_recompute:
  assumes "\<not> (parsedQueryRef s = parse (location s) \<and> shallowEqual (paramConfigMapRef s) cfg \<and>
              encodedValuesCacheRef s \<noteq> None)"
    and "getLatestDecodedValues parse codecs cfg s = (Inr r, s')"
  shows "\<exists>ev dv.
           decode_loop codecs (props cfg) (props (parse (location s)))
             (case encodedValuesCacheRef s of None \<Rightarrow> [] | Some c \<Rightarrow> props c)
             (props (decodedValuesCacheRef s)) (Object_keys cfg) [] []
             (s\<lparr>next_addr := next_addr s + 2\<rparr>) = (Inr (ev, dv), s') \<and>
           encodedValues r = Obj (next_addr s) ev \<and>
           decodedValues r =
             (if shallowEqual (decodedValuesCacheRef s) (Obj (next_addr s + 1) dv)
              then decodedValuesCacheRef s else Obj (next_addr s + 1) dv)"
proof -
  from assms(1) have none: "\<not> (\<not> parsedQueryRef s \<noteq> parse (location s) \<and>
        \<not> \<not> shallowEqual (paramConfigMapRef s) cfg \<and> encodedValuesCacheRef s \<noteq> None)"
    by auto
  let ?loop = "decode_loop codecs (props cfg) (props (parse (location s)))
             (case encodedValuesCacheRef s of None \<Rightarrow> [] | Some c \<Rightarrow> props c)
             (props (decodedValuesCacheRef s)) (Object_keys cfg) [] []
             (s\<lparr>next_addr := next_addr s + 2\<rparr>)"
  from assms(2) obtain ev dv where l: "?loop = (Inr (ev, dv), s')"
    and r: "r = \<lparr>encodedValues = Obj (next_addr s) ev,
                 decodedValues = (if \<not> shallowEqual (decodedValuesCacheRef s) (Obj (next_addr s + 1) dv)
                                  then Obj (next_addr s + 1) dv else decodedValuesCacheRef s)\<rparr>"
    unfolding getLatestDecodedValues_def Let_def if_not_P[OF none]
    by (auto split: prod.splits sum.splits)
  from r have "encodedValues r = Obj (next_addr s) ev"
    "decodedValues r = (if shallowEqual (decodedValuesCacheRef s) (Obj (next_addr s + 1) dv)
              then decodedValuesCacheRef s else Obj (next_addr s + 1) dv)"
    by simp_all
  with l show ?thesis by blast
qed

lemma useQueryParams_Inr:
  assumes "useQueryParams parse codecs cfg0 s = (Inr (dv, c), s')"
  shows "\<exists>r s1. getLatestDecodedValues parse codecs c s = (Inr r, s1) \<and>
           c = usePreviousIfShallowEqual (previousRef s) cfg0 \<and> dv = decodedValues r \<and>
           s' = s1\<lparr>previousRef := c, parsedQueryRef := parse (location s),
                   paramConfigMapRef := c, encodedValuesCacheRef := Some (encodedValues r),
                   decodedValuesCacheRef := dv\<rparr>"
  using assms
  by (auto simp: useQueryParams_def useQueryParams_render_def run_effects_def Let_def
        useUpdateRefIfShallowNew_new split: prod.splits sum.splits)



lemma getLatestDecodedValues_frame:
  assumes "getLatestDecodedValues parse codecs cfg s = (res, s')"
  shows "location s' = location s" "setLocation_calls s' = setLocation_calls s"
    "previousRef s' = previousRef s" "paramConfigMapRef s' = paramConfigMapRef s"
    "parsedQueryRef s' = parsedQueryRef s" "encodedValuesCacheRef s' = encodedValuesCacheRef s"
    "decodedValuesCacheRef s' = decodedValuesCacheRef s"
proof -
  from getLatestDecodedValues_state[of parse codecs cfg s] assms obtain n cs where
    "s' = s\<lparr>next_addr := n, decode_calls := cs\<rparr>" by auto
  then show "location s' = location s" "setLocation_calls s' = setLocation_calls s"
    "previousRef s' = previousRef s" "paramConfigMapRef s' = paramConfigMapRef s"
    "parsedQueryRef s' = parsedQueryRef s" "encodedValuesCacheRef s' = encodedValuesCacheRef s"
    "decodedValuesCacheRef s' = decodedValuesCacheRef s"
    by simp_all
qed

lemma useQueryParams_render_state:
  "snd (useQueryParams_render parse codecs cfg0 s) =
   snd (getLatestDecodedValues parse codecs (usePreviousIfShallowEqual (previousRef s) cfg0) s)"
  by (simp add: useQueryParams_render_def Let_def split: prod.splits sum.splits)

section \<open>Reference stability\<close>


lemma page_first_evaluation:
  "useQueryParams example_parse example_codecs page_config
     (useRef_initial example_parse page_config ''?page=3'' 100) =
   (Inr (Obj 102 [(''page'', DNum 3)], page_config), page_state)"
  by code_simp




section \<open>The cache during an evaluation\<close>

text \<open>
  C8. A call of \<^verbatim>\<open>getLatestDecodedValues\<close> leaves the four cache cells (parsed query,
  param config map, encoded values, decoded values) as they are, and so does the whole
  render phase of an evaluation. The state after an evaluation is the state after the
  render when the render throws, and otherwise the effects after the commit applied to
  it: the cells are written there only.
\<close>

theorem evaluation_reads_cache_only:
  "(let s' = snd (getLatestDecodedValues parse codecs cfg s)
    in parsedQueryRef s' = parsedQueryRef s \<and> paramConfigMapRef s' = paramConfigMapRef s \<and>
       encodedValuesCacheRef s' = encodedValuesCacheRef s \<and>
       decodedValuesCacheRef s' = decodedValuesCacheRef s) \<and>
   (let s' = snd (useQueryParams_render parse codecs cfg s)
    in parsedQueryRef s' = parsedQueryRef s \<and> paramConfigMapRef s' = paramConfigMapRef s \<and>
       encodedValuesCacheRef s' = encodedValuesCacheRef s \<and>
       decodedValuesCacheRef s' = decodedValuesCacheRef s) \<and>
   snd (useQueryParams parse codecs cfg s) =
     (case useQueryParams_render parse codecs cfg s of
        (Inl e, s') \<Rightarrow> s'
      | (Inr out, s') \<Rightarrow> run_effects out s')"
proof -
  have a: "\<And>c. let s' = snd (getLatestDecodedValues parse codecs c s)
    in parsedQueryRef s' = parsedQueryRef s \<and> paramConfigMapRef s' = paramConfigMapRef s \<and>
       encodedValuesCacheRef s' = encodedValuesCacheRef s \<and>
       decodedValuesCacheRef s' = decodedValuesCacheRef s"
  proof -
    fix c
    obtain n cs where "snd (getLatestDecodedValues parse codecs c s) = s\<lparr>next_addr := n, decode_calls := cs\<rparr>"
      using getLatestDecodedValues_state by blast
    then show "let s' = snd (getLatestDecodedValues parse codecs c s)
    in parsedQueryRef s' = parsedQueryRef s \<and> paramConfigMapRef s' = paramConfigMapRef s \<and>
       encodedValuesCacheRef s' = encodedValuesCacheRef s \<and>
       decodedValuesCacheRef s' = decodedValuesCacheRef s"
      by (simp add: Let_def)
  qed
  have b: "snd (useQueryParams parse codecs cfg s) =
     (case useQueryParams_render parse codecs cfg s of
        (Inl e, s') \<Rightarrow> s'
      | (Inr out, s') \<Rightarrow> run_effects out s')"
    by (simp add: useQueryParams_def split: prod.splits sum.splits)
  from a[of cfg] a[of "usePreviousIfShallowEqual (previousRef s) cfg"] b
  show ?thesis by (simp only: useQueryParams_render_state)
qed

theorem evaluation_reads_cache_only_witness:
  "parsedQueryRef (snd (getLatestDecodedValues example_parse example_codecs page_config
      (useRef_initial example_parse page_config ''?page=3'' 100))) = Obj 10 [(''page'', RString ''3'')] \<and>
   encodedValuesCacheRef (snd (getLatestDecodedValues example_parse example_codecs page_config
      (useRef_initial example_parse page_config ''?page=3'' 100))) = None \<and>
   decodedValuesCacheRef (snd (getLatestDecodedValues example_parse example_codecs page_config
      (useRef_initial example_parse page_config ''?page=3'' 100))) = Obj 100 [] \<and>
   fst (getLatestDecodedValues example_parse example_codecs page_config
      (useRef_initial example_parse page_config ''?page=3'' 100)) =
     Inr \<lparr>encodedValues = Obj 101 [(''page'', RString ''3'')],
          decodedValues = Obj 102 [(''page'', DNum 3)]\<rparr>"
proof -
  have r: "fst (getLatestDecodedValues example_parse example_codecs page_config
      (useRef_initial example_parse page_config ''?page=3'' 100)) =
     Inr \<lparr>encodedValues = Obj 101 [(''page'', RString ''3'')],
          decodedValues = Obj 102 [(''page'', DNum 3)]\<rparr>"
    by code_simp
  from evaluation_reads_cache_only[of example_parse example_codecs page_config
      "useRef_initial example_parse page_config ''?page=3'' 100"] r
  show ?thesis by (simp add: Let_def useRef_initial_def example_parse_def)
qed

section \<open>The setter\<close>

text \<open>
  What a call of the setter with a function \<open>f\<close> does: it computes the latest decoded
  values as an evaluation in the same state would, under the memoized config map \<open>cfg\<close>
  that the setter holds, writes them to the decoded-values cache at once, applies \<open>f\<close>
  to them, and passes what \<open>f\<close> returns to \<^verbatim>\<open>setLocation\<close> as it is, with the update
  type. When \<open>f\<close> throws, nothing is passed.
\<close>

lemma setQuery_with_function:
  assumes "useQueryParams_render parse codecs cfg0 s = (Inr (pq, cfg, r), s1)"
  shows "setQuery parse codecs cfg (Updater f) updateType s =
     (case f (decodedValues r) of
        Inl e \<Rightarrow> (Inl e, s1\<lparr>decodedValuesCacheRef := decodedValues r\<rparr>)
      | Inr encodedChanges \<Rightarrow>
          (Inr (), s1\<lparr>decodedValuesCacheRef := decodedValues r,
                      setLocation_calls := setLocation_calls s @ [(encodedChanges, updateType)]\<rparr>))"
proof -
  from assms have g: "getLatestDecodedValues parse codecs cfg s = (Inr r, s1)"
    by (auto simp: useQueryParams_render_def Let_def split: prod.splits sum.splits)
  from getLatestDecodedValues_frame(2)[OF g] g show ?thesis
    by (simp add: setQuery_def Let_def split: sum.splits)
qed

text \<open>
  C3. The values that the function gets are not always those of the current location.
  A use of the hook is evaluated at \<^verbatim>\<open>?page=5\<close>. The location becomes \<^verbatim>\<open>?page=3\<close> and
  the setter is called with the function of scenario D: the function gets \<^verbatim>\<open>{page: 3}\<close>,
  which line 148 writes to the decoded-values cache, while the cached parsed query and
  encoded values stay those of \<^verbatim>\<open>?page=5\<close>. The location becomes \<^verbatim>\<open>?page=5\<close> again and
  the setter is called again: \<^verbatim>\<open>getLatestDecodedValues\<close> finds the cached parsed query
  and takes the short-circuit of lines 71 to 80, the function gets the cached
  \<^verbatim>\<open>{page: 3}\<close>, and \<^verbatim>\<open>{page: "4"}\<close> is passed to \<^verbatim>\<open>setLocation\<close>, where scenario D has
  \<^verbatim>\<open>{page: "6"}\<close>: the raw value at the location is \<^verbatim>\<open>"5"\<close>, which decodes to 5.
\<close>

theorem functional_setter_stale_after_round_trip:
  "useQueryParams example_parse example_codecs page_config
     (useRef_initial example_parse page_config ''?page=5'' 100) =
     (Inr (Obj 102 [(''page'', DNum 5)], page_config), round_trip_state1) \<and>
   setQuery example_parse example_codecs page_config (Updater next_page) None
     (round_trip_state1\<lparr>location := ''?page=3''\<rparr>) = (Inr (), round_trip_state2) \<and>
   decodedValuesCacheRef round_trip_state2 = Obj 105 [(''page'', DNum 3)] \<and>
   setQuery example_parse example_codecs page_config (Updater next_page) None
     (round_trip_state2\<lparr>location := ''?page=5''\<rparr>) = (Inr (), round_trip_state3) \<and>
   location round_trip_state3 = ''?page=5'' \<and>
   get_raw (props (example_parse ''?page=5'')) ''page'' = RString ''5'' \<and>
   decode (example_codecs 2) 107 (RString ''5'') = Inr (DNum 5) \<and>
   fst (getLatestDecodedValues example_parse example_codecs page_config
          (round_trip_state2\<lparr>location := ''?page=5''\<rparr>)) =
     Inr \<lparr>encodedValues = Obj 101 [(''page'', RString ''5'')],
          decodedValues = Obj 105 [(''page'', DNum 3)]\<rparr> \<and>
   setLocation_calls round_trip_state3 =
     [([(''page'', RString ''4'')], None), ([(''page'', RString ''4'')], None)]"
  by code_simp

lemma encodeQueryParams_all:
  assumes "\<forall>(k, v) \<in> set query. \<exists>c x. map_of (props cfg) k = Some c \<and> encode (codecs c) v = Inr x"
  shows "\<exists>encodedChanges. encodeQueryParams codecs cfg query = Inr encodedChanges \<and>
           list_all2 (\<lambda>(k, v) (k', x). k' = k \<and>
              (\<exists>c. map_of (props cfg) k = Some c \<and> encode (codecs c) v = Inr x))
             query encodedChanges"
  using assms
proof (induction query)
  case Nil
  then show ?case by simp
next
  case (Cons kv query)
  obtain k v where kv: "kv = (k, v)" by (cases kv)
  from Cons.prems kv obtain c x where c: "map_of (props cfg) k = Some c" "encode (codecs c) v = Inr x"
    by auto
  from Cons.IH Cons.prems obtain ec where ec: "encodeQueryParams codecs cfg query = Inr ec"
    "list_all2 (\<lambda>(k, v) (k', x). k' = k \<and>
              (\<exists>c. map_of (props cfg) k = Some c \<and> encode (codecs c) v = Inr x)) query ec"
    by auto
  from kv c ec show ?case by simp
qed

text \<open>
  C6. Called with a partial mapping of decoded values, each under a name of the config map
  and each accepted by its \<^verbatim>\<open>encode\<close>, the setter passes to \<^verbatim>\<open>setLocation\<close>, with the
  update type, the mapping of the same names to what the \<^verbatim>\<open>encode\<close> of each name's
  configuration returns for the value, under the config map the setter holds. Nothing
  else changes.
\<close>

theorem setter_encodes_values:
  assumes "\<forall>(k, v) \<in> set query. \<exists>c x. map_of (props cfg) k = Some c \<and> encode (codecs c) v = Inr x"
  shows "\<exists>encodedChanges.
           setQuery parse codecs cfg (Values query) updateType s =
             (Inr (), s\<lparr>setLocation_calls :=
                          setLocation_calls s @ [(encodedChanges, updateType)]\<rparr>) \<and>
           list_all2 (\<lambda>(k, v) (k', x). k' = k \<and>
              (\<exists>c. map_of (props cfg) k = Some c \<and> encode (codecs c) v = Inr x))
             query encodedChanges"
proof -
  from encodeQueryParams_all[OF assms] obtain ec where
    "encodeQueryParams codecs cfg query = Inr ec"
    "list_all2 (\<lambda>(k, v) (k', x). k' = k \<and>
              (\<exists>c. map_of (props cfg) k = Some c \<and> encode (codecs c) v = Inr x)) query ec"
    by blast
  then show ?thesis by (auto simp: setQuery_def)
qed

lemma decimal_encode_4: "decimal_encode (DNum 4) = Inr (RString ''4'')"
  by code_simp

theorem setter_encodes_values_witness:
  "useQueryParams example_parse example_codecs page_config
     (useRef_initial example_parse page_config ''?page=3'' 100) =
   (Inr (Obj 102 [(''page'', DNum 3)], page_config), page_state) \<and>
   setQuery example_parse example_codecs page_config (Values [(''page'', DNum 4)]) (Some ''replaceIn'')
     page_state =
   (Inr (), page_state\<lparr>setLocation_calls := [([(''page'', RString ''4'')], Some ''replaceIn'')]\<rparr>)"
proof -
  have h: "\<forall>(k, v) \<in> set [(''page'', DNum 4)].
      \<exists>c x. map_of (props page_config) k = Some c \<and> encode (example_codecs c) v = Inr x"
    by (simp add: page_config_def example_codecs_def decimal_encode_4)
  from setter_encodes_values[OF h, of example_parse "Some ''replaceIn''" page_state]
  obtain ec where ec: "setQuery example_parse example_codecs page_config (Values [(''page'', DNum 4)])
      (Some ''replaceIn'') page_state =
      (Inr (), page_state\<lparr>setLocation_calls := setLocation_calls page_state @ [(ec, Some ''replaceIn'')]\<rparr>)"
    and l: "list_all2 (\<lambda>(k, v) (k', x). k' = k \<and>
              (\<exists>c. map_of (props page_config) k = Some c \<and> encode (example_codecs c) v = Inr x))
             [(''page'', DNum 4)] ec"
    by blast
  from l have "ec = [(''page'', RString ''4'')]"
    by (auto simp: list_all2_Cons1 page_config_def example_codecs_def decimal_encode_4)
  with ec page_first_evaluation show ?thesis by (simp add: page_state_def)
qed


lemma page5_setQuery:
  "setQuery example_parse example_codecs page_config (Updater next_page) None
     (page_state\<lparr>location := ''?page=5''\<rparr>) =
   (Inr (), page_state\<lparr>location := ''?page=5'', next_addr := 107,
      decode_calls := [(''page'', RString ''3''), (''page'', RString ''5'')],
      decodedValuesCacheRef := Obj 105 [(''page'', DNum 5)],
      setLocation_calls := [([(''page'', RString ''6'')], None)]\<rparr>)"
  by code_simp

text \<open>
  C10. A call of the setter with a function leaves the parsed-query cell, the config-map
  cell and the encoded-values cell as they are, and writes the decoded-values cell with
  the latest decoded values (when computing them throws, that cell stays too). So the
  encoded values may be behind the decoded ones: in scenario D the setter, called at
  \<^verbatim>\<open>?page=5\<close> in the state left by the evaluation at \<^verbatim>\<open>?page=3\<close>, leaves the cached
  query and encoded values of \<^verbatim>\<open>?page=3\<close> beside the decoded values of \<^verbatim>\<open>?page=5\<close>.
\<close>

theorem functional_update_writes_decoded_cache_only:
  assumes "setQuery parse codecs cfg (Updater f) updateType s = (res, s')"
  shows "parsedQueryRef s' = parsedQueryRef s \<and> paramConfigMapRef s' = paramConfigMapRef s \<and>
         encodedValuesCacheRef s' = encodedValuesCacheRef s \<and>
         decodedValuesCacheRef s' =
           (case fst (getLatestDecodedValues parse codecs cfg s) of
              Inl e \<Rightarrow> decodedValuesCacheRef s
            | Inr r \<Rightarrow> decodedValues r) \<and>
         (\<exists>s0 s1. setQuery example_parse example_codecs page_config (Updater next_page) None s0 =
                     (Inr (), s1) \<and>
                  parsedQueryRef s1 = example_parse ''?page=3'' \<and>
                  encodedValuesCacheRef s1 = Some (Obj 101 [(''page'', RString ''3'')]) \<and>
                  decodedValuesCacheRef s1 = Obj 105 [(''page'', DNum 5)])"
proof -
  obtain r0 s1 where g: "getLatestDecodedValues parse codecs cfg s = (r0, s1)"
    by (cases "getLatestDecodedValues parse codecs cfg s")
  note fr = getLatestDecodedValues_frame[OF g]
  have a: "parsedQueryRef s' = parsedQueryRef s \<and> paramConfigMapRef s' = paramConfigMapRef s \<and>
         encodedValuesCacheRef s' = encodedValuesCacheRef s \<and>
         decodedValuesCacheRef s' =
           (case fst (getLatestDecodedValues parse codecs cfg s) of
              Inl e \<Rightarrow> decodedValuesCacheRef s
            | Inr r \<Rightarrow> decodedValues r)"
    using assms g fr by (auto simp: setQuery_def Let_def split: sum.splits)
  have b: "\<exists>s0 s1. setQuery example_parse example_codecs page_config (Updater next_page) None s0 =
                     (Inr (), s1) \<and>
                  parsedQueryRef s1 = example_parse ''?page=3'' \<and>
                  encodedValuesCacheRef s1 = Some (Obj 101 [(''page'', RString ''3'')]) \<and>
                  decodedValuesCacheRef s1 = Obj 105 [(''page'', DNum 5)]"
    by (rule exI[of _ "page_state\<lparr>location := ''?page=5''\<rparr>"], subst page5_setQuery)
      (simp add: page_state_def example_parse_def)
  from a b show ?thesis by blast
qed

theorem functional_update_writes_decoded_cache_only_witness:
  "setQuery example_parse example_codecs page_config (Updater next_page) None
     (page_state\<lparr>location := ''?page=5''\<rparr>) =
   (Inr (), page_state\<lparr>location := ''?page=5'', next_addr := 107,
      decode_calls := [(''page'', RString ''3''), (''page'', RString ''5'')],
      decodedValuesCacheRef := Obj 105 [(''page'', DNum 5)],
      setLocation_calls := [([(''page'', RString ''6'')], None)]\<rparr>) \<and>
   parsedQueryRef (page_state\<lparr>location := ''?page=5'', next_addr := 107,
      decode_calls := [(''page'', RString ''3''), (''page'', RString ''5'')],
      decodedValuesCacheRef := Obj 105 [(''page'', DNum 5)],
      setLocation_calls := [([(''page'', RString ''6'')], None)]\<rparr>) = Obj 10 [(''page'', RString ''3'')] \<and>
   encodedValuesCacheRef (page_state\<lparr>location := ''?page=5'', next_addr := 107,
      decode_calls := [(''page'', RString ''3''), (''page'', RString ''5'')],
      decodedValuesCacheRef := Obj 105 [(''page'', DNum 5)],
      setLocation_calls := [([(''page'', RString ''6'')], None)]\<rparr>) =
     Some (Obj 101 [(''page'', RString ''3'')])"
  using functional_update_writes_decoded_cache_only[OF page5_setQuery] page5_setQuery
  by (simp add: page_state_def)


section \<open>The incremental decoder\<close>

lemma get_raw_map_of: "map_of ps k = Some v \<Longrightarrow> get_raw ps k = v"
  by (simp add: get_raw_def)


lemma encoded_cache_current_cells:
  "encodedValuesCacheRef s' = encodedValuesCacheRef s \<Longrightarrow> paramConfigMapRef s' = paramConfigMapRef s \<Longrightarrow>
   parsedQueryRef s' = parsedQueryRef s \<Longrightarrow> encoded_cache_current s' = encoded_cache_current s"
  by (simp add: encoded_cache_current_def split: option.splits)

lemma getLatestDecodedValues_encoded:
  assumes g: "getLatestDecodedValues parse codecs c s = (Inr r, s')"
    and inv: "encoded_cache_current s"
    and k: "k \<in> set (Object_keys c)"
  shows "map_of (props (encodedValues r)) k = Some (get_raw (props (parse (location s))) k)"
proof (cases "parsedQueryRef s = parse (location s) \<and> shallowEqual (paramConfigMapRef s) c \<and>
              encodedValuesCacheRef s \<noteq> None")
  case True
  then obtain e where e: "encodedValuesCacheRef s = Some e" by auto
  from True e have "getLatestDecodedValues parse codecs c s =
      (Inr \<lparr>encodedValues = e, decodedValues = decodedValuesCacheRef s\<rparr>, s)"
    by (intro getLatestDecodedValues_cached) simp_all
  with g have "encodedValues r = e" by auto
  moreover from True k have "k \<in> set (Object_keys (paramConfigMapRef s))"
    using shallowEqual_keys[of "paramConfigMapRef s" c] by simp
  ultimately show ?thesis using inv e True by (simp add: encoded_cache_current_def)
next
  case False
  from getLatestDecodedValues_recompute[OF False g] obtain ev dv where
    l: "decode_loop codecs (props c) (props (parse (location s)))
             (case encodedValuesCacheRef s of None \<Rightarrow> [] | Some c \<Rightarrow> props c)
             (props (decodedValuesCacheRef s)) (Object_keys c) [] []
             (s\<lparr>next_addr := next_addr s + 2\<rparr>) = (Inr (ev, dv), s')"
    and e: "encodedValues r = Obj (next_addr s) ev"
    by blast
  from decode_loop_encoded[OF l k] e show ?thesis by simp
qed

lemma encoded_cache_current_useQueryParams:
  assumes "useQueryParams parse codecs cfg0 s = (res, s')" and "encoded_cache_current s"
  shows "encoded_cache_current s'"
proof (cases res)
  case (Inl e)
  with assms(1) obtain r0 where "useQueryParams_render parse codecs cfg0 s = (r0, s')"
    by (auto simp: useQueryParams_def split: prod.splits sum.splits)
  then have "s' = snd (getLatestDecodedValues parse codecs (usePreviousIfShallowEqual (previousRef s) cfg0) s)"
    using useQueryParams_render_state[of parse codecs cfg0 s] by simp
  then obtain n cs where "s' = s\<lparr>next_addr := n, decode_calls := cs\<rparr>"
    using getLatestDecodedValues_state by metis
  then have "encoded_cache_current s' = encoded_cache_current s"
    by (intro encoded_cache_current_cells) simp_all
  with assms(2) show ?thesis by simp
next
  case (Inr p)
  obtain dv c where p: "p = (dv, c)" by (cases p)
  from useQueryParams_Inr[OF assms(1)[unfolded Inr p]] obtain r s1 where
    g: "getLatestDecodedValues parse codecs c s = (Inr r, s1)"
    and s': "s' = s1\<lparr>previousRef := c, parsedQueryRef := parse (location s),
                   paramConfigMapRef := c, encodedValuesCacheRef := Some (encodedValues r),
                   decodedValuesCacheRef := dv\<rparr>"
    by blast
  from getLatestDecodedValues_encoded[OF g assms(2)] s' show ?thesis
    by (simp add: encoded_cache_current_def)
qed


lemma encoded_cache_current_setQuery:
  assumes "setQuery parse codecs cfg changes updateType s = (res, s')" and "encoded_cache_current s"
  shows "encoded_cache_current s'"
proof (cases changes)
  case (Values q)
  with assms(1) have "encoded_cache_current s' = encoded_cache_current s"
    by (intro encoded_cache_current_cells) (auto simp: setQuery_def split: sum.splits)
  with assms(2) show ?thesis by simp
next
  case (Updater f)
  obtain r0 s1 where g: "getLatestDecodedValues parse codecs cfg s = (r0, s1)"
    by (cases "getLatestDecodedValues parse codecs cfg s")
  note fr = getLatestDecodedValues_frame[OF g]
  from assms(1) Updater g have "paramConfigMapRef s' = paramConfigMapRef s1 \<and>
     parsedQueryRef s' = parsedQueryRef s1 \<and> encodedValuesCacheRef s' = encodedValuesCacheRef s1"
    by (auto simp: setQuery_def Let_def split: sum.splits)
  with fr have "encoded_cache_current s' = encoded_cache_current s"
    by (intro encoded_cache_current_cells) simp_all
  with assms(2) show ?thesis by simp
qed




lemma decode_loop_calls_any:
  "decode_loop codecs cfg pq ec dc names ev dv s = (res, s') \<Longrightarrow>
   \<exists>calls. decode_calls s' = decode_calls s @ calls \<and>
     (\<forall>(k, v) \<in> set calls. k \<in> set names \<and> v = get_raw pq k \<and> hasNewEncodedValue ec pq k)"
proof (induction names arbitrary: ev dv s)
  case Nil
  then show ?case by simp
next
  case (Cons p names)
  show ?case
  proof (cases "p = ''__proto__''")
    case True
    with Cons.prems show ?thesis by (simp add: decode_loop_proto)
  next
    case np: False
    show ?thesis
    proof (cases "hasNewEncodedValue ec pq p")
      case False
      with Cons.prems np have "decode_loop codecs cfg pq ec dc names
          (AList.update p (get_raw ec p) ev) (AList.update p (get_dval dc p) dv) s = (res, s')"
        by (simp add: decode_loop_reuse)
      from Cons.IH[OF this] show ?thesis by auto
    next
      case True
      note step = decode_loop_decode[OF np True]
      show ?thesis
      proof (cases "map_of cfg p")
        case None
        with Cons.prems show ?thesis by (simp add: step)
      next
        case (Some c)
        let ?s1 = "s\<lparr>next_addr := Suc (next_addr s),
                       decode_calls := decode_calls s @ [(p, get_raw pq p)]\<rparr>"
        show ?thesis
        proof (cases "decode (codecs c) (next_addr s) (get_raw pq p)")
          case (Inl e)
          with Some Cons.prems have "s' = ?s1" by (simp add: step)
          then have "decode_calls s' = decode_calls s @ [(p, get_raw pq p)]" by simp
          with True show ?thesis by auto
        next
          case (Inr d)
          with Some Cons.prems have "decode_loop codecs cfg pq ec dc names
              (AList.update p (get_raw pq p) ev) (AList.update p d dv) ?s1 = (res, s')"
            by (simp add: step)
          from Cons.IH[OF this] obtain calls where
            c: "decode_calls s' = decode_calls s @ (p, get_raw pq p) # calls"
            "\<forall>(k, v) \<in> set calls. k \<in> set names \<and> v = get_raw pq k \<and> hasNewEncodedValue ec pq k"
            by auto
          with True have "\<forall>(k, v) \<in> set ((p, get_raw pq p) # calls).
              k \<in> set (p # names) \<and> v = get_raw pq k \<and> hasNewEncodedValue ec pq k"
            by auto
          with c(1) show ?thesis by blast
        qed
      qed
    qed
  qed
qed

lemma decode_loop_Inl:
  "decode_loop codecs cfg pq ec dc names ev dv s = (Inl e, s') \<Longrightarrow> e \<noteq> Unmodelled \<Longrightarrow>
   \<exists>k \<in> set names. hasNewEncodedValue ec pq k \<and>
     (case map_of cfg k of
        None \<Rightarrow> e = TypeError
      | Some c \<Rightarrow> \<exists>n. decode (codecs c) n (get_raw pq k) = Inl e)"
proof (induction names arbitrary: ev dv s)
  case Nil
  then show ?case by simp
next
  case (Cons p names)
  show ?case
  proof (cases "p = ''__proto__''")
    case True
    with Cons.prems show ?thesis by (simp add: decode_loop_proto)
  next
    case np: False
    show ?thesis
    proof (cases "hasNewEncodedValue ec pq p")
      case False
      with Cons.prems np have "decode_loop codecs cfg pq ec dc names
          (AList.update p (get_raw ec p) ev) (AList.update p (get_dval dc p) dv) s = (Inl e, s')"
        by (simp add: decode_loop_reuse)
      from Cons.IH[OF this Cons.prems(2)] show ?thesis by auto
    next
      case True
      note step = decode_loop_decode[OF np True]
      show ?thesis
      proof (cases "map_of cfg p")
        case None
        with True Cons.prems show ?thesis by (simp add: step)
      next
        case (Some c)
        let ?s1 = "s\<lparr>next_addr := Suc (next_addr s),
                       decode_calls := decode_calls s @ [(p, get_raw pq p)]\<rparr>"
        show ?thesis
        proof (cases "decode (codecs c) (next_addr s) (get_raw pq p)")
          case (Inl e')
          with Some Cons.prems have "e' = e" by (simp add: step)
          with Inl True Some show ?thesis by auto
        next
          case (Inr d)
          with Some Cons.prems have "decode_loop codecs cfg pq ec dc names
              (AList.update p (get_raw pq p) ev) (AList.update p d dv) ?s1 = (Inl e, s')"
            by (simp add: step)
          from Cons.IH[OF this Cons.prems(2)] show ?thesis by auto
        qed
      qed
    qed
  qed
qed

lemma getLatestDecodedValues_loop:
  assumes "\<not> (parsedQueryRef s = parse (location s) \<and> shallowEqual (paramConfigMapRef s) c \<and>
              encodedValuesCacheRef s \<noteq> None)"
    and "getLatestDecodedValues parse codecs c s = (res, s')"
  shows "\<exists>lres. decode_loop codecs (props c) (props (parse (location s))) (cached_encoded s)
             (props (decodedValuesCacheRef s)) (Object_keys c) [] []
             (s\<lparr>next_addr := next_addr s + 2\<rparr>) = (lres, s') \<and>
           (\<forall>e. res = Inl e \<longleftrightarrow> lres = Inl e)"
proof -
  from assms(1) have none: "\<not> (\<not> parsedQueryRef s \<noteq> parse (location s) \<and>
        \<not> \<not> shallowEqual (paramConfigMapRef s) c \<and> encodedValuesCacheRef s \<noteq> None)"
    by auto
  show ?thesis using assms(2)
    unfolding getLatestDecodedValues_def Let_def if_not_P[OF none] cached_encoded_def
    by (auto split: prod.splits sum.splits)
qed

lemma getLatestDecodedValues_loop_Inr:
  assumes "\<not> (parsedQueryRef s = parse (location s) \<and> shallowEqual (paramConfigMapRef s) c \<and>
              encodedValuesCacheRef s \<noteq> None)"
    and "getLatestDecodedValues parse codecs c s = (Inr r, s')"
  shows "\<exists>ev dv.
           decode_loop codecs (props c) (props (parse (location s))) (cached_encoded s)
             (props (decodedValuesCacheRef s)) (Object_keys c) [] []
             (s\<lparr>next_addr := next_addr s + 2\<rparr>) = (Inr (ev, dv), s')"
  using getLatestDecodedValues_recompute[OF assms] by (auto simp: cached_encoded_def)

lemma getLatestDecodedValues_short:
  assumes "parsedQueryRef s = parse (location s) \<and> shallowEqual (paramConfigMapRef s) c \<and>
           encodedValuesCacheRef s \<noteq> None"
  shows "getLatestDecodedValues parse codecs c s =
           (Inr \<lparr>encodedValues = the (encodedValuesCacheRef s),
                 decodedValues = decodedValuesCacheRef s\<rparr>, s)"
  using assms by (simp add: getLatestDecodedValues_def)

lemma current_not_new:
  assumes "parsedQueryRef s = parse (location s)" and "shallowEqual (paramConfigMapRef s) c"
    and "encodedValuesCacheRef s \<noteq> None" and "encoded_cache_current s"
    and "k \<in> set (Object_keys c)"
  shows "\<not> hasNewEncodedValue (cached_encoded s) (props (parse (location s))) k"
proof -
  from assms(2,5) have "k \<in> set (Object_keys (paramConfigMapRef s))"
    using shallowEqual_keys[of "paramConfigMapRef s" c] by simp
  with assms(1,3,4) show ?thesis
    by (auto simp: cached_encoded_def encoded_cache_current_def hasNewEncodedValue_def
        inherited_def get_raw_map_of shallowEqual_raw_iff)
qed

lemma getLatestDecodedValues_calls_any:
  assumes "getLatestDecodedValues parse codecs c s = (res, s')"
  shows "\<exists>calls. decode_calls s' = decode_calls s @ calls \<and>
     (\<forall>(k, v) \<in> set calls. k \<in> set (Object_keys c) \<and> v = get_raw (props (parse (location s))) k \<and>
        hasNewEncodedValue (cached_encoded s) (props (parse (location s))) k)"
proof (cases "parsedQueryRef s = parse (location s) \<and> shallowEqual (paramConfigMapRef s) c \<and>
              encodedValuesCacheRef s \<noteq> None")
  case True
  from getLatestDecodedValues_short[where parse = parse and codecs = codecs and c = c and s = s, OF True] assms have "s' = s" by simp
  then show ?thesis by simp
next
  case False
  from getLatestDecodedValues_loop[OF False assms] obtain lres where
    "decode_loop codecs (props c) (props (parse (location s))) (cached_encoded s)
             (props (decodedValuesCacheRef s)) (Object_keys c) [] []
             (s\<lparr>next_addr := next_addr s + 2\<rparr>) = (lres, s')"
    by blast
  from decode_loop_calls_any[OF this] show ?thesis by simp
qed

lemma getLatestDecodedValues_calls_Inr:
  assumes g: "getLatestDecodedValues parse codecs c s = (Inr r, s')"
    and inv: "encoded_cache_current s"
  shows "decode_calls s' = decode_calls s @
     map (\<lambda>k. (k, get_raw (props (parse (location s))) k))
       (filter (hasNewEncodedValue (cached_encoded s) (props (parse (location s)))) (Object_keys c))"
proof (cases "parsedQueryRef s = parse (location s) \<and> shallowEqual (paramConfigMapRef s) c \<and>
              encodedValuesCacheRef s \<noteq> None")
  case True
  from getLatestDecodedValues_short[where parse = parse and codecs = codecs and c = c and s = s, OF True] g have "s' = s" by simp
  moreover from True inv
  have "filter (hasNewEncodedValue (cached_encoded s) (props (parse (location s)))) (Object_keys c) = []"
    using current_not_new[of s parse c] by (auto simp: filter_empty_conv)
  ultimately show ?thesis by simp
next
  case False
  from getLatestDecodedValues_loop_Inr[OF False g] obtain ev dv where
    "decode_loop codecs (props c) (props (parse (location s))) (cached_encoded s)
             (props (decodedValuesCacheRef s)) (Object_keys c) [] []
             (s\<lparr>next_addr := next_addr s + 2\<rparr>) = (Inr (ev, dv), s')"
    by auto
  from decode_loop_calls[OF this] show ?thesis by simp
qed

lemma getLatestDecodedValues_no_proto:
  assumes g: "getLatestDecodedValues parse codecs c s = (Inr r, s')"
    and inv: "encoded_cache_current s"
    and k: "k \<in> set (Object_keys c)"
    and new: "hasNewEncodedValue (cached_encoded s) (props (parse (location s))) k"
  shows "''__proto__'' \<notin> set (Object_keys c)"
proof (cases "parsedQueryRef s = parse (location s) \<and> shallowEqual (paramConfigMapRef s) c \<and>
              encodedValuesCacheRef s \<noteq> None")
  case True
  with inv k new show ?thesis using current_not_new[of s parse c k] by auto
next
  case False
  from getLatestDecodedValues_loop_Inr[OF False g] obtain ev dv where
    "decode_loop codecs (props c) (props (parse (location s))) (cached_encoded s)
             (props (decodedValuesCacheRef s)) (Object_keys c) [] []
             (s\<lparr>next_addr := next_addr s + 2\<rparr>) = (Inr (ev, dv), s')"
    by auto
  then show ?thesis by (rule decode_loop_no_proto)
qed

lemma getLatestDecodedValues_Inl:
  assumes "getLatestDecodedValues parse codecs c s = (Inl e, s')" and "e \<noteq> Unmodelled"
  shows "\<exists>k cr n. map_of (props c) k = Some cr \<and>
           hasNewEncodedValue (cached_encoded s) (props (parse (location s))) k \<and>
           decode (codecs cr) n (get_raw (props (parse (location s))) k) = Inl e"
proof (cases "parsedQueryRef s = parse (location s) \<and> shallowEqual (paramConfigMapRef s) c \<and>
              encodedValuesCacheRef s \<noteq> None")
  case True
  from getLatestDecodedValues_short[where parse = parse and codecs = codecs and c = c and s = s, OF True] assms show ?thesis by simp
next
  case False
  from getLatestDecodedValues_loop[OF False assms(1)] have
    "decode_loop codecs (props c) (props (parse (location s))) (cached_encoded s)
             (props (decodedValuesCacheRef s)) (Object_keys c) [] []
             (s\<lparr>next_addr := next_addr s + 2\<rparr>) = (Inl e, s')"
    by auto
  from decode_loop_Inl[OF this assms(2)] obtain k where k: "k \<in> set (Object_keys c)"
    "hasNewEncodedValue (cached_encoded s) (props (parse (location s))) k"
    "case map_of (props c) k of None \<Rightarrow> e = TypeError
      | Some cr \<Rightarrow> \<exists>n. decode (codecs cr) n (get_raw (props (parse (location s))) k) = Inl e"
    by auto
  from k(1) obtain cr where "map_of (props c) k = Some cr"
    by (cases "map_of (props c) k") (auto simp: Object_keys_def map_of_eq_None_iff)
  with k show ?thesis by auto
qed

lemma getLatestDecodedValues_decoded:
  assumes g: "getLatestDecodedValues parse codecs c s = (Inr r, s')"
    and inv: "encoded_cache_current s"
    and k: "k \<in> set (Object_keys c)"
    and ch: "hasNewEncodedValue (cached_encoded s) (props (parse (location s))) k"
  shows "\<exists>cr n d. map_of (props c) k = Some cr \<and>
           decode (codecs cr) n (get_raw (props (parse (location s))) k) = Inr d"
proof (cases "parsedQueryRef s = parse (location s) \<and> shallowEqual (paramConfigMapRef s) c \<and>
              encodedValuesCacheRef s \<noteq> None")
  case True
  with inv k ch show ?thesis using current_not_new[of s parse c k] by auto
next
  case False
  from getLatestDecodedValues_loop_Inr[OF False g] obtain ev dv where
    l: "decode_loop codecs (props c) (props (parse (location s))) (cached_encoded s)
             (props (decodedValuesCacheRef s)) (Object_keys c) [] []
             (s\<lparr>next_addr := next_addr s + 2\<rparr>) = (Inr (ev, dv), s')"
    by auto
  from decode_loop_decoded[OF l k ch] show ?thesis by auto
qed

lemma useQueryParams_any:
  assumes "useQueryParams parse codecs cfg0 s = (res, s')"
  shows "\<exists>gres s1. getLatestDecodedValues parse codecs
                      (usePreviousIfShallowEqual (previousRef s) cfg0) s = (gres, s1) \<and>
           decode_calls s' = decode_calls s1 \<and> (\<forall>e. res = Inl e \<longleftrightarrow> gres = Inl e) \<and>
           (\<forall>e. res = Inl e \<longrightarrow> s' = s1)"
  using assms
  by (auto simp: useQueryParams_def useQueryParams_render_def run_effects_def Let_def
        split: prod.splits sum.splits)

lemma usePreviousIfShallowEqual_keys:
  "set (Object_keys (usePreviousIfShallowEqual previous cfg0)) = set (Object_keys cfg0)"
  by (simp add: usePreviousIfShallowEqual_def shallowEqual_keys)

lemma useQueryParams_calls_any:
  assumes "useQueryParams parse codecs cfg0 s = (res, s')"
  shows "\<exists>calls. decode_calls s' = decode_calls s @ calls \<and>
     (\<forall>(k, v) \<in> set calls. k \<in> set (Object_keys cfg0) \<and> v = get_raw (props (parse (location s))) k \<and>
        hasNewEncodedValue (cached_encoded s) (props (parse (location s))) k)"
proof -
  let ?c = "usePreviousIfShallowEqual (previousRef s) cfg0"
  from useQueryParams_any[OF assms] obtain gres s1 where
    g: "getLatestDecodedValues parse codecs ?c s = (gres, s1)" and d: "decode_calls s' = decode_calls s1"
    by blast
  from getLatestDecodedValues_calls_any[OF g] d show ?thesis
    by (simp add: usePreviousIfShallowEqual_keys)
qed





text \<open>
  C2, as amended. In an evaluation that returns, from a state whose cached encoded values
  are current, and for a parameter of the config map that has a cached raw value:
  \<^verbatim>\<open>decode\<close> is called for the parameter if and only if its raw value is not
  shallow-equal to the cached one. Whether the config map changed is not part of the
  condition.
\<close>

theorem decode_invoked_iff_raw_changed:
  assumes "encoded_cache_current s"
    and "useQueryParams parse codecs cfg0 s = (Inr (dv, c), s')"
    and "p \<in> set (Object_keys cfg0)"
    and "encodedValuesCacheRef s = Some cache"
    and "map_of (props cache) p = Some cached"
  shows "\<exists>calls. decode_calls s' = decode_calls s @ calls \<and>
           (p \<in> fst ` set calls \<longleftrightarrow>
            \<not> shallowEqual_raw cached (get_raw (props (parse (location s))) p))"
proof -
  from useQueryParams_Inr[OF assms(2)] obtain r s1 where
    g: "getLatestDecodedValues parse codecs c s = (Inr r, s1)"
    and c: "c = usePreviousIfShallowEqual (previousRef s) cfg0"
    and s': "s' = s1\<lparr>previousRef := c, parsedQueryRef := parse (location s),
                   paramConfigMapRef := c, encodedValuesCacheRef := Some (encodedValues r),
                   decodedValuesCacheRef := dv\<rparr>"
    by blast
  from c assms(3) have p: "p \<in> set (Object_keys c)"
    by (simp add: usePreviousIfShallowEqual_keys)
  let ?calls = "map (\<lambda>k. (k, get_raw (props (parse (location s))) k))
       (filter (hasNewEncodedValue (cached_encoded s) (props (parse (location s)))) (Object_keys c))"
  from getLatestDecodedValues_calls_Inr[OF g assms(1)] s'
  have "decode_calls s' = decode_calls s @ ?calls" by simp
  moreover from p have "p \<in> fst ` set ?calls \<longleftrightarrow>
      hasNewEncodedValue (cached_encoded s) (props (parse (location s))) p"
    by (auto simp: image_iff)
  moreover from assms(4,5) have "hasNewEncodedValue (cached_encoded s) (props (parse (location s))) p \<longleftrightarrow>
      \<not> shallowEqual_raw cached (get_raw (props (parse (location s))) p)"
    by (simp add: hasNewEncodedValue_def inherited_def cached_encoded_def get_raw_map_of)
  ultimately show ?thesis by blast
qed

lemma page_state_current: "encoded_cache_current page_state"
  by (simp add: encoded_cache_current_def page_state_def page_config_def Object_keys_def get_raw_def)

lemma page5_evaluation:
  "useQueryParams example_parse example_codecs page_config (page_state\<lparr>location := ''?page=5''\<rparr>) =
   (Inr (Obj 105 [(''page'', DNum 5)], page_config),
    page_state\<lparr>location := ''?page=5'', next_addr := 107,
      decode_calls := [(''page'', RString ''3''), (''page'', RString ''5'')],
      parsedQueryRef := Obj 11 [(''page'', RString ''5'')],
      encodedValuesCacheRef := Some (Obj 104 [(''page'', RString ''5'')]),
      decodedValuesCacheRef := Obj 105 [(''page'', DNum 5)]\<rparr>)"
  by code_simp

theorem decode_invoked_iff_raw_changed_witness:
  "encoded_cache_current (page_state\<lparr>location := ''?page=5''\<rparr>) \<and>
   useQueryParams example_parse example_codecs page_config (page_state\<lparr>location := ''?page=5''\<rparr>) =
   (Inr (Obj 105 [(''page'', DNum 5)], page_config),
    page_state\<lparr>location := ''?page=5'', next_addr := 107,
      decode_calls := [(''page'', RString ''3''), (''page'', RString ''5'')],
      parsedQueryRef := Obj 11 [(''page'', RString ''5'')],
      encodedValuesCacheRef := Some (Obj 104 [(''page'', RString ''5'')]),
      decodedValuesCacheRef := Obj 105 [(''page'', DNum 5)]\<rparr>) \<and>
   ''page'' \<in> set (Object_keys page_config) \<and>
   encodedValuesCacheRef (page_state\<lparr>location := ''?page=5''\<rparr>) =
     Some (Obj 101 [(''page'', RString ''3'')]) \<and>
   map_of (props (Obj 101 [(''page'', RString ''3'')])) ''page'' = Some (RString ''3'') \<and>
   get_raw (props (example_parse ''?page=5'')) ''page'' = RString ''5'' \<and>
   (\<exists>calls. [(''page'', RString ''3''), (''page'', RString ''5'')] =
              decode_calls (page_state\<lparr>location := ''?page=5''\<rparr>) @ calls \<and>
            ''page'' \<in> fst ` set calls)"
proof -
  have inv: "encoded_cache_current (page_state\<lparr>location := ''?page=5''\<rparr>)"
    using page_state_current encoded_cache_current_cells[of "page_state\<lparr>location := ''?page=5''\<rparr>" page_state]
    by simp
  have p: "''page'' \<in> set (Object_keys page_config)"
    by (simp add: page_config_def Object_keys_def)
  have e: "encodedValuesCacheRef (page_state\<lparr>location := ''?page=5''\<rparr>) =
      Some (Obj 101 [(''page'', RString ''3'')])"
    by (simp add: page_state_def)
  have m: "map_of (props (Obj 101 [(''page'', RString ''3'')])) ''page'' = Some (RString ''3'')"
    by simp
  have c: "get_raw (props (example_parse ''?page=5'')) ''page'' = RString ''5''"
    by (simp add: example_parse_def get_raw_def)
  from decode_invoked_iff_raw_changed[OF inv page5_evaluation p e m] c
  have "\<exists>calls. [(''page'', RString ''3''), (''page'', RString ''5'')] =
              decode_calls (page_state\<lparr>location := ''?page=5''\<rparr>) @ calls \<and>
            ''page'' \<in> fst ` set calls"
    by auto
  with inv page5_evaluation p e m c show ?thesis by blast
qed

text \<open>
  The claim C2 as stated fails: the evaluation after scenario A with a config map that is
  not shallow-equal to the cached one (another configuration for \<^verbatim>\<open>page\<close>), at the same
  location, finds the raw value of \<^verbatim>\<open>page\<close> shallow-equal to the cached one, calls no
  \<^verbatim>\<open>decode\<close> and returns the decoded values of the old configuration.
\<close>

theorem config_change_alone_decodes_nothing:
  "''page'' \<in> set (Object_keys (Obj 7 [(''page'', 3)])) \<and>
   \<not> shallowEqual (paramConfigMapRef page_state) (Obj 7 [(''page'', 3)]) \<and>
   encodedValuesCacheRef page_state = Some (Obj 101 [(''page'', RString ''3'')]) \<and>
   shallowEqual_raw (RString ''3'') (get_raw (props (example_parse (location page_state))) ''page'') \<and>
   useQueryParams example_parse example_codecs (Obj 7 [(''page'', 3)]) page_state =
   (Inr (Obj 102 [(''page'', DNum 3)], Obj 7 [(''page'', 3)]),
    page_state\<lparr>next_addr := 106, previousRef := Obj 7 [(''page'', 3)],
      paramConfigMapRef := Obj 7 [(''page'', 3)],
      encodedValuesCacheRef := Some (Obj 104 [(''page'', RString ''3'')])\<rparr>) \<and>
   decode_calls (page_state\<lparr>next_addr := 106, previousRef := Obj 7 [(''page'', 3)],
      paramConfigMapRef := Obj 7 [(''page'', 3)],
      encodedValuesCacheRef := Some (Obj 104 [(''page'', RString ''3'')])\<rparr>) =
     decode_calls page_state"
  by code_simp

section \<open>Failures of decode and missing raw values\<close>

text \<open>
  In any evaluation from a state whose cached encoded values are current: every call of
  \<^verbatim>\<open>decode\<close> is for a parameter of the config map for which line 95 finds a new encoded
  value, and gets the raw value of the parsed query as it is (\<^verbatim>\<open>undefined\<close> when
  missing); when the evaluation throws, the error is one that a \<^verbatim>\<open>decode\<close> of the
  config map threw on the raw value of its parameter, and the four cache cells are as
  before; and when the \<^verbatim>\<open>decode\<close> of a parameter with a new encoded value throws on
  that value, the evaluation does not return: no result leaves the parameter out.
\<close>

lemma decode_failure_propagates:
  assumes "encoded_cache_current s"
    and "useQueryParams parse codecs cfg0 s = (res, s')"
  shows "(\<exists>calls. decode_calls s' = decode_calls s @ calls \<and>
            (\<forall>(k, v) \<in> set calls. k \<in> set (Object_keys cfg0) \<and>
               v = get_raw (props (parse (location s))) k \<and>
               hasNewEncodedValue (cached_encoded s) (props (parse (location s))) k)) \<and>
         (\<forall>e. res = Inl e \<and> e \<noteq> Unmodelled \<longrightarrow>
            (\<exists>k cr n. map_of (props (usePreviousIfShallowEqual (previousRef s) cfg0)) k = Some cr \<and>
               decode (codecs cr) n (get_raw (props (parse (location s))) k) = Inl e) \<and>
            parsedQueryRef s' = parsedQueryRef s \<and> paramConfigMapRef s' = paramConfigMapRef s \<and>
            encodedValuesCacheRef s' = encodedValuesCacheRef s \<and>
            decodedValuesCacheRef s' = decodedValuesCacheRef s) \<and>
         (\<forall>k cr. map_of (props (usePreviousIfShallowEqual (previousRef s) cfg0)) k = Some cr \<and>
            hasNewEncodedValue (cached_encoded s) (props (parse (location s))) k \<and>
            (\<forall>n. isl (decode (codecs cr) n (get_raw (props (parse (location s))) k))) \<longrightarrow>
            isl res)"
proof -
  let ?c = "usePreviousIfShallowEqual (previousRef s) cfg0"
  let ?pq = "props (parse (location s))"
  from useQueryParams_any[OF assms(2)] obtain gres s1 where
    g: "getLatestDecodedValues parse codecs ?c s = (gres, s1)"
    and res: "\<forall>e. res = Inl e \<longleftrightarrow> gres = Inl e" and st: "\<forall>e. res = Inl e \<longrightarrow> s' = s1"
    by blast
  note fr = getLatestDecodedValues_frame[OF g]
  have one: "\<exists>calls. decode_calls s' = decode_calls s @ calls \<and>
            (\<forall>(k, v) \<in> set calls. k \<in> set (Object_keys cfg0) \<and>
               v = get_raw ?pq k \<and> hasNewEncodedValue (cached_encoded s) ?pq k)"
    by (rule useQueryParams_calls_any[OF assms(2)])
  have two: "(\<exists>k cr n. map_of (props ?c) k = Some cr \<and> decode (codecs cr) n (get_raw ?pq k) = Inl e) \<and>
            parsedQueryRef s' = parsedQueryRef s \<and> paramConfigMapRef s' = paramConfigMapRef s \<and>
            encodedValuesCacheRef s' = encodedValuesCacheRef s \<and>
            decodedValuesCacheRef s' = decodedValuesCacheRef s"
    if e: "res = Inl e" "e \<noteq> Unmodelled" for e
  proof -
    from e res g have "getLatestDecodedValues parse codecs ?c s = (Inl e, s1)" by simp
    from getLatestDecodedValues_Inl[OF this e(2)] have
      "\<exists>k cr n. map_of (props ?c) k = Some cr \<and> decode (codecs cr) n (get_raw ?pq k) = Inl e"
      by blast
    moreover from e st have "s' = s1" by simp
    ultimately show ?thesis using fr by simp
  qed
  have three: "isl res" if k: "map_of (props ?c) k = Some cr"
    "hasNewEncodedValue (cached_encoded s) ?pq k"
    "\<forall>n. isl (decode (codecs cr) n (get_raw ?pq k))" for k cr
  proof (cases gres)
    case (Inl e)
    with res have "res = Inl e" by blast
    then show ?thesis by simp
  next
    case (Inr r)
    from k(1) have "k \<in> set (Object_keys ?c)"
      by (metis Object_keys_def domI dom_map_of_conv_image_fst list.set_map)
    from getLatestDecodedValues_decoded[OF g[unfolded Inr] assms(1) this k(2)] k(1,3)
    show ?thesis by (metis option.inject sum.disc(2))
  qed
  from one two three show ?thesis by blast
qed

text \<open>
  C5. The claim is not what the program does with a raw value that is missing at the
  first evaluation. With the config \<^verbatim>\<open>{page}\<close> whose \<^verbatim>\<open>decode\<close> has the default 0, the
  first evaluation at the empty query does not hand the missing value to \<^verbatim>\<open>decode\<close>:
  line 96 reads \<^verbatim>\<open>undefined\<close> from the empty cache, line 95 finds no new encoded
  value, and the evaluation returns \<^verbatim>\<open>{page: undefined}\<close>, a value that no \<^verbatim>\<open>decode\<close>
  produced. The same missing value is handed to \<^verbatim>\<open>decode\<close> when the parameter was
  present before: after an evaluation at \<^verbatim>\<open>?page=3\<close>, the evaluation at the empty query
  calls \<^verbatim>\<open>decode(undefined)\<close> and returns \<^verbatim>\<open>{page: 0}\<close>.
\<close>

theorem missing_value_not_decoded:
  "''page'' \<in> set (Object_keys default_page_config) \<and>
   get_raw (props (example_parse [])) ''page'' = RUndefined \<and>
   decode (example_codecs 4) 106 RUndefined = Inr (DNum 0) \<and>
   useQueryParams example_parse example_codecs default_page_config
     (useRef_initial example_parse default_page_config [] 100) =
     (Inr (Obj 102 [(''page'', DUndefined)], default_page_config), default_state_empty) \<and>
   decode_calls default_state_empty = [] \<and>
   useQueryParams example_parse example_codecs default_page_config
     (useRef_initial example_parse default_page_config ''?page=3'' 100) =
     (Inr (Obj 102 [(''page'', DNum 3)], default_page_config), default_state_page) \<and>
   useQueryParams example_parse example_codecs default_page_config
     (default_state_page\<lparr>location := []\<rparr>) =
     (Inr (Obj 105 [(''page'', DNum 0)], default_page_config), default_state_removed) \<and>
   decode_calls default_state_removed = [(''page'', RString ''3''), (''page'', RUndefined)]"
  by code_simp

section \<open>The keys of the returned mappings\<close>

text \<open>
  From a state whose cached encoded and decoded values have the keys of the cached config
  map, an evaluation returns decoded values, and caches encoded values, with exactly the
  keys of its config map, and leaves such a state.
\<close>

lemma cache_keys_current_cells:
  "encodedValuesCacheRef s' = encodedValuesCacheRef s \<Longrightarrow> paramConfigMapRef s' = paramConfigMapRef s \<Longrightarrow>
   decodedValuesCacheRef s' = decodedValuesCacheRef s \<Longrightarrow> cache_keys_current s' = cache_keys_current s"
  by (simp add: cache_keys_current_def split: option.splits)

lemma getLatestDecodedValues_keys:
  assumes g: "getLatestDecodedValues parse codecs c s = (Inr r, s')"
    and inv: "cache_keys_current s"
  shows "set (Object_keys (encodedValues r)) = set (Object_keys c) \<and>
         set (Object_keys (decodedValues r)) = set (Object_keys c)"
proof (cases "parsedQueryRef s = parse (location s) \<and> shallowEqual (paramConfigMapRef s) c \<and>
              encodedValuesCacheRef s \<noteq> None")
  case True
  then obtain e where e: "encodedValuesCacheRef s = Some e" by auto
  from True e have "getLatestDecodedValues parse codecs c s =
      (Inr \<lparr>encodedValues = e, decodedValues = decodedValuesCacheRef s\<rparr>, s)"
    by (intro getLatestDecodedValues_cached) simp_all
  with g have "encodedValues r = e" "decodedValues r = decodedValuesCacheRef s" by auto
  moreover from True have "set (Object_keys (paramConfigMapRef s)) = set (Object_keys c)"
    by (simp add: shallowEqual_keys)
  ultimately show ?thesis using inv e by (simp add: cache_keys_current_def)
next
  case False
  from getLatestDecodedValues_recompute[OF False g] obtain ev dv where
    l: "decode_loop codecs (props c) (props (parse (location s)))
             (case encodedValuesCacheRef s of None \<Rightarrow> [] | Some c \<Rightarrow> props c)
             (props (decodedValuesCacheRef s)) (Object_keys c) [] []
             (s\<lparr>next_addr := next_addr s + 2\<rparr>) = (Inr (ev, dv), s')"
    and e: "encodedValues r = Obj (next_addr s) ev"
    and d: "decodedValues r =
             (if shallowEqual (decodedValuesCacheRef s) (Obj (next_addr s + 1) dv)
              then decodedValuesCacheRef s else Obj (next_addr s + 1) dv)"
    by blast
  from decode_loop_keys[OF l] have k: "fst ` set ev = set (Object_keys c)" "fst ` set dv = set (Object_keys c)"
    by simp_all
  from k(1) e have "set (Object_keys (encodedValues r)) = set (Object_keys c)"
    by (simp add: Object_keys_def)
  moreover have "set (Object_keys (decodedValues r)) = set (Object_keys c)"
  proof (cases "shallowEqual (decodedValuesCacheRef s) (Obj (next_addr s + 1) dv)")
    case True
    from shallowEqual_keys[OF True] d True k(2) show ?thesis by (simp add: Object_keys_def)
  next
    case False
    with d k(2) show ?thesis by (simp add: Object_keys_def)
  qed
  ultimately show ?thesis by simp
qed

lemma evaluation_keys:
  assumes "cache_keys_current s"
    and "useQueryParams parse codecs cfg0 s = (Inr (dv, c), s')"
  shows "set (Object_keys dv) = set (Object_keys cfg0) \<and>
         (\<exists>e. encodedValuesCacheRef s' = Some e \<and> set (Object_keys e) = set (Object_keys cfg0)) \<and>
         cache_keys_current s'"
proof -
  from useQueryParams_Inr[OF assms(2)] obtain r s1 where
    g: "getLatestDecodedValues parse codecs c s = (Inr r, s1)"
    and c: "c = usePreviousIfShallowEqual (previousRef s) cfg0" and dv: "dv = decodedValues r"
    and s': "s' = s1\<lparr>previousRef := c, parsedQueryRef := parse (location s),
                   paramConfigMapRef := c, encodedValuesCacheRef := Some (encodedValues r),
                   decodedValuesCacheRef := dv\<rparr>"
    by blast
  from c have keys: "set (Object_keys c) = set (Object_keys cfg0)"
    by (simp add: usePreviousIfShallowEqual_def shallowEqual_keys)
  from getLatestDecodedValues_keys[OF g assms(1)] keys dv s' show ?thesis
    by (simp add: cache_keys_current_def)
qed

text \<open>
  C9. The evaluations themselves keep the keys, but the setter does not: it writes the
  decoded-values cache with values computed under the config map it was created with.
  A use of the hook is evaluated with \<^verbatim>\<open>{page}\<close>, then with \<^verbatim>\<open>{sort}\<close>; the setter of the
  first evaluation is called with a function that returns no changes; the next evaluation
  with \<^verbatim>\<open>{sort}\<close>, at the same location, takes the short-circuit and returns the
  decoded values \<^verbatim>\<open>{page: 3}\<close>: \<^verbatim>\<open>page\<close> is not in its config map and \<^verbatim>\<open>sort\<close> is missing.
\<close>

theorem stale_setter_breaks_keys:
  "useQueryParams example_parse example_codecs page_config
     (useRef_initial example_parse page_config ''?page=3&sort=7'' 100) =
     (Inr (Obj 102 [(''page'', DNum 3)], page_config), stale_state1) \<and>
   useQueryParams example_parse example_codecs sort_config stale_state1 =
     (Inr (Obj 105 [(''sort'', DNum 7)], sort_config), stale_state2) \<and>
   setQuery example_parse example_codecs page_config (Updater no_changes) None stale_state2 =
     (Inr (), stale_state3) \<and>
   useQueryParams example_parse example_codecs sort_config stale_state3 =
     (Inr (Obj 108 [(''page'', DNum 3)], sort_config), stale_state3) \<and>
   Object_keys (Obj 108 [(''page'', DNum 3)] :: dval obj) = [''page''] \<and>
   Object_keys sort_config = [''sort'']"
  by code_simp


end
